theory Spec2Isabelle
  imports Complex_Main "HOL-Library.Word"
begin

section \<open>Collapsed Gibbs sampling for the HDP (src/hdp/cgs.py)\<close>

text \<open>
  The sampler object of \<^verbatim>\<open>CollapsedGibbsSampling\<close> is a record that every method takes
  and returns.  Python exceptions are values of \<open>error\<close>; a method that raises returns
  \<open>Inl\<close> of it, and the run stops there, as the uncaught exception stops the program.

  Representation choices:
  \<^item> the corpus is a dict from document id to token list: an association list with
    distinct keys; document ids and word ids are non-negative integers (\<open>nat\<close>);
  \<^item> \<^verbatim>\<open>_t_dv\<close>, \<^verbatim>\<open>_k_dt\<close>, \<^verbatim>\<open>_n_dt\<close> are dicts that \<^verbatim>\<open>_initialize\<close> fills with the keys
    \<^verbatim>\<open>0 .. D-1\<close> in order: lists indexed by document, a missing key is \<open>KeyError\<close>;
  \<^item> numpy count arrays hold whole numbers: \<open>int\<close>; table and topic indices are \<open>nat\<close>;
  \<^item> floating-point numbers are idealised as \<open>real\<close>.
\<close>

text \<open>
  \<open>NonFinite\<close> marks the places where numpy leaves the real numbers (a division by
  zero or a pole of \<^verbatim>\<open>gammaln\<close> gives \<^verbatim>\<open>inf\<close> or \<^verbatim>\<open>nan\<close>, the logarithm of a negative
  number gives \<^verbatim>\<open>nan\<close>): the idealisation of floats as reals ends there, and so does
  the model of the run.
\<close>

datatype error = IndexError | KeyError | AssertionError | ZeroDivisionError | NonFinite

record sampler =
  K :: nat
  V :: nat
  D :: nat
  alpha :: real
  gamma :: real
  eta :: real
  corpus :: "(nat \<times> nat list) list"
  n_kv :: "int list list"
  n_kd :: "int list list"
  m_k :: "int list"
  t_dv :: "nat list list"
  k_dt :: "nat list list"
  n_dt :: "int list list"

subsection \<open>Raising operations\<close>

definition bind_e :: "error + 'a \<Rightarrow> ('a \<Rightarrow> error + 'b) \<Rightarrow> error + 'b" where
  "bind_e m f = (case m of Inl e \<Rightarrow> Inl e | Inr x \<Rightarrow> f x)"

definition assert_e :: "bool \<Rightarrow> error + 'a \<Rightarrow> error + 'a" where
  "assert_e b m = (if b then m else Inl AssertionError)"

text \<open>\<^verbatim>\<open>xs[i]\<close> on an array or list, with a non-negative index.\<close>

definition nth_e :: "'a list \<Rightarrow> nat \<Rightarrow> error + 'a" where
  "nth_e xs i = (if i < length xs then Inr (xs ! i) else Inl IndexError)"

text \<open>\<^verbatim>\<open>dict[d]\<close> for the per-document dicts held as lists.\<close>

definition key_e :: "'a list \<Rightarrow> nat \<Rightarrow> error + 'a" where
  "key_e xs d = (if d < length xs then Inr (xs ! d) else Inl KeyError)"

text \<open>\<^verbatim>\<open>self._corpus[d]\<close>.\<close>

definition doc_e :: "(nat \<times> nat list) list \<Rightarrow> nat \<Rightarrow> error + nat list" where
  "doc_e c d = (case map_of c d of None \<Rightarrow> Inl KeyError | Some ws \<Rightarrow> Inr ws)"

text \<open>\<^verbatim>\<open>xs[i] += u\<close> and \<^verbatim>\<open>m[k, j] += u\<close>.\<close>

definition add_at :: "int list \<Rightarrow> nat \<Rightarrow> int \<Rightarrow> error + int list" where
  "add_at xs i u = (if i < length xs then Inr (xs[i := xs ! i + u]) else Inl IndexError)"

definition add_at2 :: "int list list \<Rightarrow> nat \<Rightarrow> nat \<Rightarrow> int \<Rightarrow> error + int list list" where
  "add_at2 m k j u =
     (if k < length m \<and> j < length (m ! k)
      then Inr (m[k := (m ! k)[j := m ! k ! j + u]]) else Inl IndexError)"

definition all_nonneg :: "int list \<Rightarrow> bool" where
  "all_nonneg xs = list_all (\<lambda>x. 0 \<le> x) xs"

definition all_nonneg2 :: "int list list \<Rightarrow> bool" where
  "all_nonneg2 m = list_all all_nonneg m"

subsection \<open>\<^verbatim>\<open>update_params\<close> (lines 261-290)\<close>

definition update_params :: "sampler \<Rightarrow> nat \<Rightarrow> nat \<Rightarrow> int \<Rightarrow> error + sampler" where
  "update_params s document_index word_index update =
     bind_e (key_e (t_dv s) document_index) (\<lambda>td.
     bind_e (nth_e td word_index) (\<lambda>table_id.
     bind_e (key_e (k_dt s) document_index) (\<lambda>kd.
     bind_e (nth_e kd table_id) (\<lambda>topic_id.
     bind_e (doc_e (corpus s) document_index) (\<lambda>doc.
     bind_e (nth_e doc word_index) (\<lambda>word_id.
     bind_e (key_e (n_dt s) document_index) (\<lambda>nd.
     bind_e (add_at nd table_id update) (\<lambda>nd'.
     assert_e (all_nonneg nd') (
     bind_e (add_at2 (n_kv s) topic_id word_id update) (\<lambda>nkv'.
     assert_e (all_nonneg2 nkv') (
     bind_e (add_at2 (n_kd s) topic_id document_index update) (\<lambda>nkd'.
     assert_e (all_nonneg2 nkd') (
     bind_e (if update = -1 \<and> nd' ! table_id = 0
             then add_at (m_k s) topic_id (-1) else Inr (m_k s)) (\<lambda>mk1.
     bind_e (if update = 1 \<and> nd' ! table_id = 1
             then add_at mk1 topic_id 1 else Inr mk1) (\<lambda>mk2.
     assert_e (all_nonneg mk2) (
     Inr (s\<lparr>n_dt := (n_dt s)[document_index := nd'],
             n_kv := nkv', n_kd := nkd', m_k := mk2\<rparr>)))))))))))))))))"

subsection \<open>\<^verbatim>\<open>_initialize\<close> (lines 40-99)\<close>

text \<open>
  The body of the loop \<^verbatim>\<open>for d in xrange(self._D)\<close>.  \<^verbatim>\<open>numpy.unique\<close> of the all-zero
  table vector has one element, or none when the document is empty, so the first
  assertion excludes empty documents.
\<close>

fun count_words :: "int list list \<Rightarrow> nat list \<Rightarrow> error + int list list" where
  "count_words m [] = Inr m"
| "count_words m (v # vs) = bind_e (add_at2 m 0 v 1) (\<lambda>m'. count_words m' vs)"

definition init_doc :: "sampler \<Rightarrow> nat \<Rightarrow> error + sampler" where
  "init_doc s d =
     bind_e (doc_e (corpus s) d) (\<lambda>doc.
     (let td = replicate (length doc) (0::nat);
          kd = [0::nat] in
      assert_e (length kd = length (remdups td)) (
      (let nd = [0 + int (length doc)] in
       assert_e (length nd = length (remdups td)) (
       assert_e (sum_list nd = int (length doc)) (
       bind_e (count_words (n_kv s) doc) (\<lambda>nkv'.
       bind_e (if 0 < length (n_kd s) \<and> d < length (n_kd s ! 0)
               then Inr ((n_kd s)[0 := (n_kd s ! 0)[d := int (length doc)]])
               else Inl IndexError) (\<lambda>nkd'.
       bind_e (add_at (m_k s) 0 (int (length kd))) (\<lambda>mk'.
       Inr (s\<lparr>t_dv := t_dv s @ [td], k_dt := k_dt s @ [kd], n_dt := n_dt s @ [nd],
               n_kv := nkv', n_kd := nkd', m_k := mk'\<rparr>))))))))))"

fun init_docs :: "sampler \<Rightarrow> nat list \<Rightarrow> error + sampler" where
  "init_docs s [] = Inr s"
| "init_docs s (d # ds) = bind_e (init_doc s d) (\<lambda>s'. init_docs s' ds)"

definition initialize ::
  "(nat \<times> nat list) list \<Rightarrow> nat \<Rightarrow> real \<Rightarrow> real \<Rightarrow> real \<Rightarrow> error + sampler" where
  "initialize data K0 alpha0 gamma0 eta0 =
     (let D0 = length data;
          vocab = remdups (concat (map snd data));
          V0 = length vocab
      in init_docs
           \<lparr>K = K0, V = V0, D = D0, alpha = alpha0, gamma = gamma0, eta = eta0,
            corpus = data,
            n_kv = replicate K0 (replicate V0 0),
            n_kd = replicate K0 (replicate D0 0),
            m_k = replicate K0 0,
            t_dv = [], k_dt = [], n_dt = []\<rparr>
           [0..<D0])"

subsection \<open>Categorical draws\<close>

text \<open>
  \<^verbatim>\<open>numpy.cumsum\<close>, and \<^verbatim>\<open>numpy.nonzero(cdf >= u)[0][0]\<close>: the first index whose cumulative
  value reaches the uniform draw \<open>u\<close>; \<^verbatim>\<open>[0][0]\<close> raises \<^verbatim>\<open>IndexError\<close> when there is none.
\<close>

fun cumsum_from :: "real \<Rightarrow> real list \<Rightarrow> real list" where
  "cumsum_from a [] = []"
| "cumsum_from a (x # xs) = (a + x) # cumsum_from (a + x) xs"

definition cumsum :: "real list \<Rightarrow> real list" where
  "cumsum xs = cumsum_from 0 xs"

fun first_ge :: "real list \<Rightarrow> real \<Rightarrow> nat option" where
  "first_ge [] u = None"
| "first_ge (c # cs) u = (if u \<le> c then Some 0 else map_option Suc (first_ge cs u))"

text \<open>
  \<^verbatim>\<open>p /= numpy.sum(p); cdf = numpy.cumsum(p); numpy.nonzero(cdf >= u)[0][0]\<close>, the index
  before the cast.
\<close>

definition draw :: "real list \<Rightarrow> real \<Rightarrow> error + nat" where
  "draw p u =
     (if sum_list p = 0 then Inl NonFinite
      else case first_ge (cumsum (map (\<lambda>x. x / sum_list p) p)) u of
             None \<Rightarrow> Inl IndexError
           | Some i \<Rightarrow> Inr i)"

text \<open>\<^verbatim>\<open>numpy.uint8(i)\<close> of an index: the low eight bits.\<close>

definition uint8 :: "nat \<Rightarrow> nat" where
  "uint8 i = unat (word_of_nat i :: 8 word)"

fun map_e :: "('a \<Rightarrow> error + 'b) \<Rightarrow> 'a list \<Rightarrow> error + 'b list" where
  "map_e g [] = Inr []"
| "map_e g (x # xs) = bind_e (g x) (\<lambda>y. bind_e (map_e g xs) (\<lambda>ys. Inr (y # ys)))"

subsection \<open>Word-to-table step of \<^verbatim>\<open>sample\<close> (lines 120-183)\<close>

text \<open>
  Lines 127-131: the loop that fills \<^verbatim>\<open>f\<close> and accumulates \<^verbatim>\<open>f_new\<close>; \<open>n_k\<close> holds the row
  sums of \<^verbatim>\<open>_n_kv\<close>.
\<close>

fun f_loop ::
  "sampler \<Rightarrow> nat \<Rightarrow> int list \<Rightarrow> nat list \<Rightarrow> real list \<Rightarrow> real \<Rightarrow> error + real list \<times> real" where
  "f_loop s word_id n_k [] f f_new = Inr (f, f_new)"
| "f_loop s word_id n_k (k # ks) f f_new =
     bind_e (nth_e (n_kv s) k) (\<lambda>row.
     bind_e (nth_e row word_id) (\<lambda>c.
     bind_e (nth_e n_k k) (\<lambda>nk.
     if real_of_int nk + real (V s) * eta s = 0 then Inl NonFinite
     else (let fk = (real_of_int c + eta s) / (real_of_int nk + real (V s) * eta s) in
       bind_e (nth_e (m_k s) k) (\<lambda>m.
       f_loop s word_id n_k ks (f[k := fk]) (f_new + real_of_int m * fk))))))"

text \<open>Lines 125-132: \<^verbatim>\<open>f\<close> and the normalised \<^verbatim>\<open>f_new\<close>.\<close>

definition predictive :: "sampler \<Rightarrow> nat \<Rightarrow> error + real list \<times> real" where
  "predictive s word_id =
     (let n_k = map sum_list (n_kv s) in
      assert_e (length n_k = K s) (
      bind_e (if V s = 0 then Inl ZeroDivisionError else Inr (gamma s / real (V s))) (\<lambda>f_new0.
      bind_e (f_loop s word_id n_k [0..<K s] (replicate (K s) 0) f_new0) (\<lambda>(f, f_new1).
      if real_of_int (sum_list (m_k s)) + gamma s = 0 then Inl NonFinite
      else Inr (f, f_new1 / (real_of_int (sum_list (m_k s)) + gamma s))))))"

text \<open>Lines 137-142: the entry of \<^verbatim>\<open>table_probablity\<close> for an existing table.\<close>

definition table_weight :: "nat list \<Rightarrow> int list \<Rightarrow> real list \<Rightarrow> nat \<Rightarrow> error + real" where
  "table_weight kd nd f t =
     bind_e (nth_e nd t) (\<lambda>n.
     if 0 < n
     then bind_e (nth_e kd t) (\<lambda>assigned_topic.
          bind_e (nth_e f assigned_topic) (\<lambda>fk. Inr (fk * real_of_int n)))
     else Inr 0)"

text \<open>Lines 134-144: the unnormalised \<^verbatim>\<open>table_probablity\<close>, the new-table slot last.\<close>

definition table_probablity :: "sampler \<Rightarrow> nat \<Rightarrow> real list \<Rightarrow> real \<Rightarrow> error + real list" where
  "table_probablity s document_index f f_new =
     bind_e (key_e (k_dt s) document_index) (\<lambda>kd.
     bind_e (key_e (n_dt s) document_index) (\<lambda>nd.
     bind_e (map_e (table_weight kd nd f) [0..<length kd]) (\<lambda>tp.
     Inr (tp @ [alpha s * f_new]))))"

text \<open>Lines 162-164: the unnormalised \<^verbatim>\<open>topic_probability\<close> of a new table.\<close>

definition topic_probability :: "sampler \<Rightarrow> real list \<Rightarrow> error + real list" where
  "topic_probability s f =
     bind_e (map_e (\<lambda>k. bind_e (nth_e (m_k s) k) (\<lambda>m.
                        bind_e (nth_e f k) (\<lambda>fk. Inr (real_of_int m * fk)))) [0..<K s]) (\<lambda>tp.
     if V s = 0 then Inl ZeroDivisionError
     else Inr (tp @ [gamma s / real (V s)]))"

text \<open>
  Lines 173-179 (and 239-245): one more topic, with a row of zeros in \<^verbatim>\<open>_n_kv\<close> and
  \<^verbatim>\<open>_n_kd\<close> and a zero in \<^verbatim>\<open>_m_k\<close>.  \<^verbatim>\<open>numpy.vstack\<close> needs rows of equal length, which
  the shape assertions repeat.
\<close>

definition grow_topics :: "sampler \<Rightarrow> error + sampler" where
  "grow_topics s =
     (let K' = K s + 1;
          nkv' = n_kv s @ [replicate (V s) 0];
          nkd' = n_kd s @ [replicate (D s) 0];
          mk' = m_k s @ [0]
      in assert_e (length nkv' = K' \<and> list_all (\<lambda>r. length r = V s) nkv') (
         assert_e (length nkd' = K' \<and> list_all (\<lambda>r. length r = D s) nkd') (
         assert_e (length mk' = K') (
         Inr (s\<lparr>K := K', n_kv := nkv', n_kd := nkd', m_k := mk'\<rparr>)))))"

text \<open>
  Lines 152-181: the token sits on a new table.  The vectors of the document are
  extended by a zero, a topic is drawn for the table, and a drawn index equal to
  \<^verbatim>\<open>_K\<close> adds a topic.  The drawn \<^verbatim>\<open>k_new\<close> is not stored in \<^verbatim>\<open>_k_dt\<close>.
\<close>

definition seat_new_table ::
  "sampler \<Rightarrow> nat \<Rightarrow> nat \<Rightarrow> real list \<Rightarrow> real \<Rightarrow> error + sampler" where
  "seat_new_table s document_index word_index f u =
     bind_e (key_e (n_dt s) document_index) (\<lambda>nd.
     bind_e (key_e (k_dt s) document_index) (\<lambda>kd.
     (let nd' = nd @ [0]; kd' = kd @ [0];
          s1 = s\<lparr>n_dt := (n_dt s)[document_index := nd'],
                  k_dt := (k_dt s)[document_index := kd']\<rparr>
      in assert_e (length (n_dt s1) = D s1 \<and> all_nonneg nd') (
         assert_e (length (k_dt s1) = D s1) (
         assert_e (length nd' = length kd') (
         bind_e (topic_probability s1 f) (\<lambda>tp.
         bind_e (draw tp u) (\<lambda>drawn.
         (let k_new = uint8 drawn in
          bind_e (if k_new = K s1 then grow_topics s1 else Inr s1) (\<lambda>s2.
          update_params s2 document_index word_index 1))))))))))"

text \<open>
  Lines 120-183, one token; \<open>u1\<close> and \<open>u2\<close> are the values that the two calls of
  \<^verbatim>\<open>numpy.random.random()\<close> return (the second is only drawn for a new table).
\<close>

definition word_step :: "sampler \<Rightarrow> nat \<Rightarrow> nat \<Rightarrow> real \<Rightarrow> real \<Rightarrow> error + sampler" where
  "word_step s document_index word_index u1 u2 =
     bind_e (update_params s document_index word_index (-1)) (\<lambda>s1.
     bind_e (doc_e (corpus s1) document_index) (\<lambda>doc.
     bind_e (nth_e doc word_index) (\<lambda>word_id.
     bind_e (predictive s1 word_id) (\<lambda>(f, f_new).
     bind_e (table_probablity s1 document_index f f_new) (\<lambda>tp.
     bind_e (draw tp u1) (\<lambda>drawn.
     (let new_table = uint8 drawn in
      bind_e (key_e (t_dv s1) document_index) (\<lambda>td.
      bind_e (if word_index < length td then Inr (td[word_index := new_table])
              else Inl IndexError) (\<lambda>td'.
      (let s2 = s1\<lparr>t_dv := (t_dv s1)[document_index := td']\<rparr> in
       bind_e (key_e (k_dt s2) document_index) (\<lambda>kd.
       if new_table = length kd
       then seat_new_table s2 document_index word_index f u2
       else update_params s2 document_index word_index 1)))))))))))"

subsection \<open>Table-to-topic step of \<^verbatim>\<open>sample\<close> (lines 188-255)\<close>

text \<open>
  The entries of \<^verbatim>\<open>topic_probablity\<close> are logarithms until line 227.  A float there is
  finite or \<^verbatim>\<open>-inf\<close>: the literal \<^verbatim>\<open>-1e500\<close> is \<^verbatim>\<open>-inf\<close>, and so is \<^verbatim>\<open>numpy.log(0)\<close>
  (line 10 of the source turns its warning off).  \<^verbatim>\<open>numpy.exp\<close> of \<^verbatim>\<open>-inf\<close> is 0.
\<close>

datatype logw = MinusInf | Finite real

fun plus_logw :: "logw \<Rightarrow> logw \<Rightarrow> logw" where
  "plus_logw (Finite a) (Finite b) = Finite (a + b)"
| "plus_logw _ _ = MinusInf"

fun exp_logw :: "logw \<Rightarrow> real" where
  "exp_logw MinusInf = 0"
| "exp_logw (Finite a) = exp a"

definition log_e :: "real \<Rightarrow> error + logw" where
  "log_e x = (if x < 0 then Inl NonFinite else if x = 0 then Inr MinusInf else Inr (Finite (ln x)))"

text \<open>
  \<^verbatim>\<open>scipy.special.gammaln\<close> is a parameter \<open>gl\<close> of the model; at its poles, the
  integers from 0 downwards, scipy returns \<^verbatim>\<open>inf\<close>.
\<close>

definition gammaln_e :: "(real \<Rightarrow> real) \<Rightarrow> real \<Rightarrow> error + real" where
  "gammaln_e gl x = (if x \<le> 0 \<and> real_of_int \<lfloor>x\<rfloor> = x then Inl NonFinite else Inr (gl x))"

text \<open>\<^verbatim>\<open>gammaln(a) - gammaln(b)\<close>.\<close>

definition gl_diff :: "(real \<Rightarrow> real) \<Rightarrow> real \<Rightarrow> real \<Rightarrow> error + real" where
  "gl_diff gl a b = bind_e (gammaln_e gl a) (\<lambda>x. bind_e (gammaln_e gl b) (\<lambda>y. Inr (x - y)))"

text \<open>\<^verbatim>\<open>for x in xs: acc += g(x)\<close>.\<close>

fun sum_e :: "('a \<Rightarrow> error + real) \<Rightarrow> 'a list \<Rightarrow> real \<Rightarrow> error + real" where
  "sum_e g [] acc = Inr acc"
| "sum_e g (x # xs) acc = bind_e (g x) (\<lambda>y. sum_e g xs (acc + y))"

text \<open>
  Lines 194-196: the word ids of the tokens on the table.  The keys of the \<^verbatim>\<open>FreqDist\<close>
  are the distinct word ids, \<^verbatim>\<open>freq[w]\<close> the number of occurrences; the sums over the
  keys do not depend on their order.
\<close>

definition selected_words :: "sampler \<Rightarrow> nat \<Rightarrow> nat \<Rightarrow> error + nat list" where
  "selected_words s document_index table_index =
     bind_e (key_e (t_dv s) document_index) (\<lambda>td.
     bind_e (doc_e (corpus s) document_index) (\<lambda>doc.
     map_e (nth_e doc) (filter (\<lambda>i. td ! i = table_index) [0..<length td])))"

definition freq_dist :: "nat list \<Rightarrow> nat \<Rightarrow> int" where
  "freq_dist ws w = int (count_list ws w)"

text \<open>Lines 198-201: the entry of a new topic.\<close>

definition new_topic_logw :: "(real \<Rightarrow> real) \<Rightarrow> sampler \<Rightarrow> int \<Rightarrow> nat list \<Rightarrow> error + logw" where
  "new_topic_logw gl s n ws =
     bind_e (gl_diff gl (real (V s) * eta s) (real_of_int n + real (V s) * eta s)) (\<lambda>base.
     bind_e (sum_e (\<lambda>w. gl_diff gl (real_of_int (freq_dist ws w) + eta s) (eta s))
               (remdups ws) base) (\<lambda>acc.
     bind_e (log_e (gamma s)) (\<lambda>lg.
     Inr (plus_logw (Finite acc) lg))))"

text \<open>\<^verbatim>\<open>self._n_kv[k, w]\<close>.\<close>

definition nth2_e :: "int list list \<Rightarrow> nat \<Rightarrow> nat \<Rightarrow> error + int" where
  "nth2_e m k j = bind_e (nth_e m k) (\<lambda>row. nth_e row j)"

text \<open>Lines 206-224: the entry of the existing topic \<open>topic_index\<close>.\<close>

definition old_topic_logw ::
  "(real \<Rightarrow> real) \<Rightarrow> sampler \<Rightarrow> int list \<Rightarrow> int \<Rightarrow> nat list \<Rightarrow> nat \<Rightarrow> nat \<Rightarrow> error + logw" where
  "old_topic_logw gl s n_k n ws old_topic topic_index =
     (if topic_index = old_topic
      then bind_e (nth_e (m_k s) topic_index) (\<lambda>m.
           if m \<le> 1 then Inr MinusInf
           else bind_e (nth_e n_k topic_index) (\<lambda>nk.
                bind_e (gl_diff gl (real (V s) * eta s + real_of_int nk - real_of_int n)
                                   (real (V s) * eta s + real_of_int nk)) (\<lambda>base.
                bind_e (sum_e (\<lambda>w. bind_e (nth2_e (n_kv s) topic_index w) (\<lambda>c.
                                 gl_diff gl (real_of_int c + eta s)
                                            (real_of_int c + eta s - real_of_int (freq_dist ws w))))
                          (remdups ws) base) (\<lambda>acc.
                bind_e (log_e (real_of_int (m - 1))) (\<lambda>lg.
                Inr (plus_logw (Finite acc) lg))))))
      else bind_e (nth_e n_k topic_index) (\<lambda>nk.
           bind_e (gl_diff gl (real (V s) * eta s + real_of_int nk)
                              (real (V s) * eta s + real_of_int nk + real_of_int n)) (\<lambda>base.
           bind_e (sum_e (\<lambda>w. bind_e (nth2_e (n_kv s) topic_index w) (\<lambda>c.
                            gl_diff gl (real_of_int c + eta s + real_of_int (freq_dist ws w))
                                       (real_of_int c + eta s)))
                     (remdups ws) base) (\<lambda>acc.
           bind_e (nth_e (m_k s) topic_index) (\<lambda>m.
           bind_e (log_e (real_of_int m)) (\<lambda>lg.
           Inr (plus_logw (Finite acc) lg)))))))"

text \<open>Lines 191-224: the whole vector of logarithms, the new topic in slot \<^verbatim>\<open>_K\<close>.\<close>

definition topic_logws ::
  "(real \<Rightarrow> real) \<Rightarrow> sampler \<Rightarrow> int \<Rightarrow> nat list \<Rightarrow> nat \<Rightarrow> error + logw list" where
  "topic_logws gl s n ws old_topic =
     bind_e (new_topic_logw gl s n ws) (\<lambda>lnew.
     (let n_k = map sum_list (n_kv s) in
      assert_e (length n_k = K s) (
      bind_e (map_e (old_topic_logw gl s n_k n ws old_topic) [0..<K s]) (\<lambda>ls.
      Inr (ls @ [lnew])))))"

text \<open>Lines 252-255: the counts of the table's words move from one row to the other.\<close>

fun move_words ::
  "int list list \<Rightarrow> nat \<Rightarrow> nat \<Rightarrow> (nat \<Rightarrow> int) \<Rightarrow> nat list \<Rightarrow> error + int list list" where
  "move_words m old_topic new_topic fr [] = Inr m"
| "move_words m old_topic new_topic fr (w # ws) =
     bind_e (add_at2 m old_topic w (- fr w)) (\<lambda>m1.
     assert_e (0 \<le> m1 ! old_topic ! w) (
     bind_e (add_at2 m1 new_topic w (fr w)) (\<lambda>m2.
     move_words m2 old_topic new_topic fr ws)))"

text \<open>Lines 233-255: the table gets the topic \<open>new_topic\<close>, different from its old one.\<close>

definition reassign_table ::
  "sampler \<Rightarrow> nat \<Rightarrow> nat \<Rightarrow> int \<Rightarrow> nat list \<Rightarrow> nat \<Rightarrow> nat \<Rightarrow> error + sampler" where
  "reassign_table s document_index table_index n ws old_topic new_topic =
     bind_e (key_e (k_dt s) document_index) (\<lambda>kd.
     bind_e (if table_index < length kd then Inr (kd[table_index := new_topic])
             else Inl IndexError) (\<lambda>kd'.
     (let s1 = s\<lparr>k_dt := (k_dt s)[document_index := kd']\<rparr> in
      bind_e (if new_topic = K s1 then grow_topics s1 else Inr s1) (\<lambda>s2.
      bind_e (add_at (m_k s2) old_topic (-1)) (\<lambda>mk1.
      bind_e (add_at mk1 new_topic 1) (\<lambda>mk2.
      bind_e (add_at2 (n_kd s2) old_topic document_index (- n)) (\<lambda>nkd1.
      bind_e (add_at2 nkd1 new_topic document_index n) (\<lambda>nkd2.
      bind_e (move_words (n_kv s2) old_topic new_topic (freq_dist ws) (remdups ws)) (\<lambda>nkv'.
      Inr (s2\<lparr>m_k := mk2, n_kd := nkd2, n_kv := nkv'\<rparr>))))))))))"

text \<open>
  Lines 188-255, one table; \<open>u\<close> is the value of \<^verbatim>\<open>numpy.random.random()\<close> at line 230.
  An empty table is skipped.
\<close>

definition table_step ::
  "(real \<Rightarrow> real) \<Rightarrow> sampler \<Rightarrow> nat \<Rightarrow> nat \<Rightarrow> real \<Rightarrow> error + sampler" where
  "table_step gl s document_index table_index u =
     bind_e (key_e (n_dt s) document_index) (\<lambda>nd.
     bind_e (nth_e nd table_index) (\<lambda>n.
     if 0 < n
     then bind_e (key_e (k_dt s) document_index) (\<lambda>kd.
          bind_e (nth_e kd table_index) (\<lambda>old_topic.
          bind_e (selected_words s document_index table_index) (\<lambda>ws.
          bind_e (topic_logws gl s n ws old_topic) (\<lambda>ls.
          bind_e (draw (map exp_logw ls) u) (\<lambda>drawn.
          (let new_topic = uint8 drawn in
           if new_topic \<noteq> old_topic
           then reassign_table s document_index table_index n ws old_topic new_topic
           else Inr s))))))
     else Inr s))"

subsection \<open>\<^verbatim>\<open>compact_params\<close> (lines 292-323)\<close>

text \<open>\<^verbatim>\<open>numpy.nonzero(xs == 0)[0]\<close> and \<^verbatim>\<open>numpy.nonzero(xs != 0)[0]\<close>.\<close>

definition unused :: "int list \<Rightarrow> nat list" where
  "unused xs = filter (\<lambda>i. xs ! i = 0) [0..<length xs]"

definition used :: "int list \<Rightarrow> nat list" where
  "used xs = filter (\<lambda>i. xs ! i \<noteq> 0) [0..<length xs]"

text \<open>
  \<^verbatim>\<open>numpy.delete(xs, idxs)\<close>, along the first axis: the entries whose index is not in
  \<open>idxs\<close>, in order.  The numpy of Python 2 ignores an index outside the array (it
  only warns), so nothing is raised here.
\<close>

definition np_delete :: "'a list \<Rightarrow> nat list \<Rightarrow> 'a list" where
  "np_delete xs idxs = map (\<lambda>i. xs ! i) (filter (\<lambda>i. i \<notin> set idxs) [0..<length xs])"

text \<open>
  Lines 317-318 and 322-323: \<^verbatim>\<open>for t in xrange(n): xs[xs == used[t]] = t\<close>, in place and in
  ascending order of \<open>t\<close>.  Both callers have \<open>n = length used\<close>.
\<close>

definition relabel :: "nat list \<Rightarrow> nat \<Rightarrow> nat list \<Rightarrow> nat list" where
  "relabel us n xs = fold (\<lambda>t ys. map (\<lambda>x. if x = us ! t then t else x) ys) [0..<n] xs"

text \<open>The body of the loop over documents, lines 308-323.\<close>

definition compact_doc :: "nat list \<Rightarrow> sampler \<Rightarrow> nat \<Rightarrow> error + sampler" where
  "compact_doc used_topics s d =
     bind_e (key_e (n_dt s) d) (\<lambda>nd.
     (let unused_tables = unused nd; used_tables = used nd;
          nd' = np_delete nd unused_tables in
      bind_e (key_e (k_dt s) d) (\<lambda>kd.
      (let kd' = np_delete kd unused_tables in
       bind_e (key_e (t_dv s) d) (\<lambda>td.
       (let td' = relabel used_tables (length nd') td;
            kd'' = relabel used_topics (K s) kd'
        in Inr (s\<lparr>n_dt := (n_dt s)[d := nd'], k_dt := (k_dt s)[d := kd''],
                   t_dv := (t_dv s)[d := td']\<rparr>)))))))"

fun compact_docs :: "nat list \<Rightarrow> sampler \<Rightarrow> nat list \<Rightarrow> error + sampler" where
  "compact_docs used_topics s [] = Inr s"
| "compact_docs used_topics s (d # ds) =
     bind_e (compact_doc used_topics s d) (\<lambda>s'. compact_docs used_topics s' ds)"

definition shape :: "int list list \<Rightarrow> nat \<Rightarrow> nat \<Rightarrow> bool" where
  "shape m r c = (length m = r \<and> list_all (\<lambda>row. length row = c) m)"

definition compact_params :: "sampler \<Rightarrow> error + sampler" where
  "compact_params s =
     (let unused_topics = unused (m_k s);
          used_topics = used (m_k s);
          K' = int (K s) - int (length unused_topics);
          nkd' = np_delete (n_kd s) unused_topics;
          nkv' = np_delete (n_kv s) unused_topics;
          mk' = np_delete (m_k s) unused_topics
      in assert_e (1 \<le> K' \<and> K' = int (length used_topics)) (
         assert_e (shape nkd' (nat K') (D s)) (
         assert_e (shape nkv' (nat K') (V s)) (
         assert_e (length mk' = nat K') (
         compact_docs used_topics
           (s\<lparr>K := nat K', n_kd := nkd', n_kv := nkv', m_k := mk'\<rparr>) [0..<D s])))))"

subsection \<open>Well-formed states\<close>

text \<open>
  The shape of a sampler state, as section 3 of the specification has it: the count
  matrices have \<open>K\<close> rows, the per-document vectors are parallel, every table index of
  a token and every topic index of a table is in range, and every word id is below \<open>V\<close>.
\<close>

definition wf_doc :: "sampler \<Rightarrow> nat \<Rightarrow> bool" where
  "wf_doc s d =
     (case map_of (corpus s) d of
        None \<Rightarrow> False
      | Some doc \<Rightarrow>
          length (t_dv s ! d) = length doc \<and> list_all (\<lambda>v. v < V s) doc \<and>
          length (n_dt s ! d) = length (k_dt s ! d) \<and>
          list_all (\<lambda>t. t < length (k_dt s ! d)) (t_dv s ! d) \<and>
          list_all (\<lambda>k. k < K s) (k_dt s ! d))"

definition well_formed :: "sampler \<Rightarrow> bool" where
  "well_formed s =
     (shape (n_kv s) (K s) (V s) \<and> shape (n_kd s) (K s) (D s) \<and> length (m_k s) = K s \<and>
      length (t_dv s) = D s \<and> length (k_dt s) = D s \<and> length (n_dt s) = D s \<and>
      list_all (wf_doc s) [0..<D s])"

text \<open>No count is negative (the assertions of \<^verbatim>\<open>update_params\<close>).\<close>

definition nonneg :: "sampler \<Rightarrow> bool" where
  "nonneg s =
     (all_nonneg2 (n_kv s) \<and> all_nonneg2 (n_kd s) \<and> all_nonneg (m_k s) \<and> all_nonneg2 (n_dt s))"

subsection \<open>The scenario of the specification\<close>

text \<open>
  The state after \<^verbatim>\<open>_initialize\<close> on the single document \<^verbatim>\<open>[0,0,0,1,1]\<close> with \<open>K = 1\<close> and
  all hyperparameters 1.
\<close>

definition scenario :: sampler where
  "scenario =
     \<lparr>K = 1, V = 2, D = 1, alpha = 1, gamma = 1, eta = 1,
      corpus = [(0, [0, 0, 0, 1, 1])],
      n_kv = [[3, 2]], n_kd = [[5]], m_k = [1],
      t_dv = [[0, 0, 0, 0, 0]], k_dt = [[0]], n_dt = [[5]]\<rparr>"

text \<open>
  The scenario after the table-to-topic step on its only table, when the draw selects
  the new-topic slot: the table has moved to the new topic 1.
\<close>

definition scenario_moved :: sampler where
  "scenario_moved =
     \<lparr>K = 2, V = 2, D = 1, alpha = 1, gamma = 1, eta = 1,
      corpus = [(0, [0, 0, 0, 1, 1])],
      n_kv = [[0, 0], [3, 2]], n_kd = [[0], [5]], m_k = [0, 1],
      t_dv = [[0, 0, 0, 0, 0]], k_dt = [[1]], n_dt = [[5]]\<rparr>"

subsection \<open>The range of the count cells\<close>

text \<open>
  numpy holds the counts in \<^verbatim>\<open>int64\<close> cells (\<^verbatim>\<open>_n_dt[d]\<close> as \<^verbatim>\<open>_initialize\<close> makes it) and in
  \<^verbatim>\<open>float64\<close> cells (\<^verbatim>\<open>_n_kv\<close>, \<^verbatim>\<open>_n_kd\<close>, \<^verbatim>\<open>_m_k\<close>, and \<^verbatim>\<open>_n_dt[d]\<close> once \<^verbatim>\<open>numpy.hstack\<close> has
  extended it).  Both hold every whole number from 0 to 2 to the power 53, and adding
  or subtracting one is exact there; above it an \<^verbatim>\<open>int64\<close> cell wraps at 2 to the power 63
  and a \<^verbatim>\<open>float64\<close> cell absorbs \<^verbatim>\<open>+= 1\<close>.  The whole numbers of the model are the
  values of the cells on the states where every count is non-negative and below
  \<open>count_bound\<close>; the properties that state an exact increment or decrement are stated for
  those states.
\<close>

definition count_bound :: int where
  "count_bound = 2 ^ 53"

definition small_counts :: "sampler \<Rightarrow> bool" where
  "small_counts s =
     (list_all (list_all (\<lambda>x. x < count_bound)) (n_kv s) \<and>
      list_all (list_all (\<lambda>x. x < count_bound)) (n_kd s) \<and>
      list_all (\<lambda>x. x < count_bound) (m_k s) \<and>
      list_all (list_all (\<lambda>x. x < count_bound)) (n_dt s))"

subsection \<open>States in which a token is seated but not counted\<close>

text \<open>
  Two well-formed states without negative counts in which token 0 of document 0 sits
  at table 0, whose count is positive.  In the first the topic of the table has no
  count for the token's word; in the second the token is alone on its table and the
  topic of the table has no table.
\<close>

definition uncounted_word :: sampler where
  "uncounted_word =
     \<lparr>K = 1, V = 2, D = 1, alpha = 1, gamma = 1, eta = 1,
      corpus = [(0, [0, 0, 0, 1, 1])],
      n_kv = [[0, 5]], n_kd = [[5]], m_k = [1],
      t_dv = [[0, 0, 0, 0, 0]], k_dt = [[0]], n_dt = [[5]]\<rparr>"

definition uncounted_table :: sampler where
  "uncounted_table =
     \<lparr>K = 1, V = 1, D = 1, alpha = 1, gamma = 1, eta = 1,
      corpus = [(0, [0])],
      n_kv = [[1]], n_kd = [[1]], m_k = [0],
      t_dv = [[0]], k_dt = [[0]], n_dt = [[1]]\<rparr>"

subsection \<open>Corpora that \<^verbatim>\<open>_initialize\<close> accepts\<close>

text \<open>\<^verbatim>\<open>self._corpus[d]\<close> where the key is known to be present.\<close>

definition doc_of :: "sampler \<Rightarrow> nat \<Rightarrow> nat list" where
  "doc_of s d = (case map_of (corpus s) d of None \<Rightarrow> [] | Some doc \<Rightarrow> doc)"

text \<open>
  The keys of the dict are distinct and are \<^verbatim>\<open>0 .. D-1\<close>, no document is empty, every
  word id is below the number of distinct word ids, and the corpus has fewer than
  \<open>count_bound\<close> tokens.
\<close>

definition corpus_ok :: "(nat \<times> nat list) list \<Rightarrow> bool" where
  "corpus_ok data =
     (distinct (map fst data) \<and>
      int (length (concat (map snd data))) < count_bound \<and>
      list_all (\<lambda>d. case map_of data d of
                  None \<Rightarrow> False
                | Some doc \<Rightarrow> doc \<noteq> [] \<and>
                    list_all (\<lambda>v. v < length (remdups (concat (map snd data)))) doc)
        [0..<length data])"

text \<open>Lines 42-78: the sampler before the loop over the documents.\<close>

definition init_state :: "(nat \<times> nat list) list \<Rightarrow> nat \<Rightarrow> real \<Rightarrow> real \<Rightarrow> real \<Rightarrow> sampler" where
  "init_state data K0 a g e =
     \<lparr>K = K0, V = length (remdups (concat (map snd data))), D = length data,
      alpha = a, gamma = g, eta = e, corpus = data,
      n_kv = replicate K0 (replicate (length (remdups (concat (map snd data)))) 0),
      n_kd = replicate K0 (replicate (length data) 0),
      m_k = replicate K0 0, t_dv = [], k_dt = [], n_dt = []\<rparr>"

subsection \<open>The steps of \<^verbatim>\<open>sample\<close>\<close>

text \<open>
  \<^verbatim>\<open>sample\<close> (lines 114-258) runs, for every document, the word-to-table step of each
  token and the table-to-topic step of each table, and \<^verbatim>\<open>compact_params\<close> at the end
  of an iteration.  A run of it is a list of such steps, each with the values that
  \<^verbatim>\<open>numpy.random.random()\<close> returns in it; \<open>run_steps\<close> stops at the first step that
  raises.
\<close>

datatype step = Word_step nat nat real real | Table_step nat nat real | Compact

fun run_step :: "(real \<Rightarrow> real) \<Rightarrow> sampler \<Rightarrow> step \<Rightarrow> error + sampler" where
  "run_step gl s (Word_step d i u1 u2) = word_step s d i u1 u2"
| "run_step gl s (Table_step d t u) = table_step gl s d t u"
| "run_step gl s Compact = compact_params s"

fun run_steps :: "(real \<Rightarrow> real) \<Rightarrow> sampler \<Rightarrow> step list \<Rightarrow> error + sampler" where
  "run_steps gl s [] = Inr s"
| "run_steps gl s (x # xs) = bind_e (run_step gl s x) (\<lambda>s'. run_steps gl s' xs)"

subsection \<open>Conservation of the tokens of a document\<close>

text \<open>\<^verbatim>\<open>sum(n_dt[d]) == len(corpus[d])\<close> for every document.\<close>

definition conserved :: "sampler \<Rightarrow> bool" where
  "conserved s =
     list_all (\<lambda>d. d < length (n_dt s) \<and> sum_list (n_dt s ! d) = int (length (doc_of s d)))
       [0..<D s]"

text \<open>The scenario after \<^verbatim>\<open>update_params(0, 0, -1)\<close>.\<close>

definition scenario_retracted :: sampler where
  "scenario_retracted =
     \<lparr>K = 1, V = 2, D = 1, alpha = 1, gamma = 1, eta = 1,
      corpus = [(0, [0, 0, 0, 1, 1])],
      n_kv = [[2, 2]], n_kd = [[4]], m_k = [1],
      t_dv = [[0, 0, 0, 0, 0]], k_dt = [[0]], n_dt = [[4]]\<rparr>"

subsection \<open>Word ids within the vocabulary\<close>


subsection \<open>The predictive probability of a word under a topic\<close>


section \<open>Properties\<close>

subsection \<open>Raising operations that succeed\<close>

lemma bind_e_Inr [simp]: "(bind_e m f = Inr y) = (\<exists>x. m = Inr x \<and> f x = Inr y)"
  by (cases m) (simp_all add: bind_e_def)

lemma bind_e_simps [simp]: "bind_e (Inr x) f = f x" "bind_e (Inl e) f = Inl e"
  by (simp_all add: bind_e_def)

lemma assert_e_Inr [simp]: "(assert_e b m = Inr y) = (b \<and> m = Inr y)"
  by (simp add: assert_e_def)

lemma assert_e_True [simp]: "assert_e True m = m"
  by (simp add: assert_e_def)

lemma nth_e_Inr [simp]: "(nth_e xs i = Inr x) = (i < length xs \<and> x = xs ! i)"
  by (auto simp: nth_e_def)

lemma key_e_Inr [simp]: "(key_e xs i = Inr x) = (i < length xs \<and> x = xs ! i)"
  by (auto simp: key_e_def)

lemma doc_e_Inr [simp]: "(doc_e c d = Inr ws) = (map_of c d = Some ws)"
  by (simp add: doc_e_def split: option.splits)

lemma add_at_Inr [simp]: "(add_at xs i u = Inr ys) = (i < length xs \<and> ys = xs[i := xs ! i + u])"
  by (auto simp: add_at_def)

lemma add_at2_Inr [simp]:
  "(add_at2 m k j u = Inr m') =
     (k < length m \<and> j < length (m ! k) \<and> m' = m[k := (m ! k)[j := m ! k ! j + u]])"
  by (auto simp: add_at2_def)

lemma nth_e_ok: "i < length xs \<Longrightarrow> nth_e xs i = Inr (xs ! i)"
  by (simp add: nth_e_def)

lemma key_e_ok: "i < length xs \<Longrightarrow> key_e xs i = Inr (xs ! i)"
  by (simp add: key_e_def)

lemma doc_e_ok: "map_of c d = Some ws \<Longrightarrow> doc_e c d = Inr ws"
  by (simp add: doc_e_def)

lemma add_at_ok: "i < length xs \<Longrightarrow> add_at xs i u = Inr (xs[i := xs ! i + u])"
  by (simp add: add_at_def)

lemma add_at2_ok:
  "k < length m \<Longrightarrow> j < length (m ! k) \<Longrightarrow>
   add_at2 m k j u = Inr (m[k := (m ! k)[j := m ! k ! j + u]])"
  by (simp add: add_at2_def)

lemma all_nonneg_nth: "all_nonneg xs \<Longrightarrow> i < length xs \<Longrightarrow> 0 \<le> xs ! i"
  by (simp add: all_nonneg_def list_all_length)

lemma all_nonneg_update: "all_nonneg xs \<Longrightarrow> 0 \<le> x \<Longrightarrow> all_nonneg (xs[i := x])"
  by (auto simp: all_nonneg_def list_all_iff dest: set_update_subset_insert [THEN subsetD])

lemma all_nonneg2_nth: "all_nonneg2 m \<Longrightarrow> k < length m \<Longrightarrow> all_nonneg (m ! k)"
  by (simp add: all_nonneg2_def list_all_length)

lemma all_nonneg2_update: "all_nonneg2 m \<Longrightarrow> all_nonneg r \<Longrightarrow> all_nonneg2 (m[k := r])"
  by (auto simp: all_nonneg2_def list_all_iff dest: set_update_subset_insert [THEN subsetD])

lemma list_all_upt: "list_all P [0..<n] = (\<forall>i<n. P i)"
  by (auto simp: list_all_iff)

lemma wf_docD:
  assumes "well_formed s" "d < D s" "map_of (corpus s) d = Some doc"
  shows "length (t_dv s ! d) = length doc" "length (n_dt s ! d) = length (k_dt s ! d)"
    "i < length doc \<Longrightarrow> doc ! i < V s"
    "i < length doc \<Longrightarrow> t_dv s ! d ! i < length (k_dt s ! d)"
    "t < length (k_dt s ! d) \<Longrightarrow> k_dt s ! d ! t < K s"
  using assms by (auto simp: well_formed_def wf_doc_def list_all_upt list_all_length)

lemma wf_doc_ex: "well_formed s \<Longrightarrow> d < D s \<Longrightarrow> \<exists>doc. map_of (corpus s) d = Some doc"
  by (auto simp: well_formed_def wf_doc_def list_all_upt split: option.splits)

lemma wf_shapeD:
  assumes "well_formed s"
  shows "length (n_kv s) = K s" "length (n_kd s) = K s" "length (m_k s) = K s"
    "length (t_dv s) = D s" "length (k_dt s) = D s" "length (n_dt s) = D s"
    "k < K s \<Longrightarrow> length (n_kv s ! k) = V s" "k < K s \<Longrightarrow> length (n_kd s ! k) = D s"
  using assms by (auto simp: well_formed_def shape_def list_all_length)

subsection \<open>\<^verbatim>\<open>update_params\<close>\<close>

lemma update_params_InrD:
  assumes "update_params s d i u = Inr s'"
  shows "\<exists>doc. map_of (corpus s) d = Some doc \<and> d < length (t_dv s) \<and> i < length (t_dv s ! d)
     \<and> d < length (k_dt s) \<and> t_dv s ! d ! i < length (k_dt s ! d) \<and> i < length doc
     \<and> d < length (n_dt s) \<and> t_dv s ! d ! i < length (n_dt s ! d)
     \<and> s' = s\<lparr>n_dt := (n_dt s)[d := (n_dt s ! d)[t_dv s ! d ! i := n_dt s ! d ! (t_dv s ! d ! i) + u]],
              n_kv := (n_kv s)[k_dt s ! d ! (t_dv s ! d ! i) :=
                   (n_kv s ! (k_dt s ! d ! (t_dv s ! d ! i)))
                     [doc ! i := n_kv s ! (k_dt s ! d ! (t_dv s ! d ! i)) ! (doc ! i) + u]],
              n_kd := (n_kd s)[k_dt s ! d ! (t_dv s ! d ! i) :=
                   (n_kd s ! (k_dt s ! d ! (t_dv s ! d ! i)))
                     [d := n_kd s ! (k_dt s ! d ! (t_dv s ! d ! i)) ! d + u]],
              m_k := (if u = -1 \<and> n_dt s ! d ! (t_dv s ! d ! i) = 1
                      then (m_k s)[k_dt s ! d ! (t_dv s ! d ! i) :=
                             m_k s ! (k_dt s ! d ! (t_dv s ! d ! i)) - 1]
                      else if u = 1 \<and> n_dt s ! d ! (t_dv s ! d ! i) = 0
                      then (m_k s)[k_dt s ! d ! (t_dv s ! d ! i) :=
                             m_k s ! (k_dt s ! d ! (t_dv s ! d ! i)) + 1]
                      else m_k s)\<rparr>"
  using assms unfolding update_params_def
  by (cases "u = -1"; cases "u = 1"; clarsimp split: if_splits)

lemma update_params_ok:
  assumes wf: "well_formed s"  and nn: "nonneg s" and d: "d < D s"
    and doc: "map_of (corpus s) d = Some doc" and i: "i < length doc"
    and u: "u = 1 \<or> u = -1"
    and pos: "u = -1 \<Longrightarrow> 0 < n_dt s ! d ! (t_dv s ! d ! i) \<and>
         0 < n_kv s ! (k_dt s ! d ! (t_dv s ! d ! i)) ! (doc ! i) \<and>
         0 < n_kd s ! (k_dt s ! d ! (t_dv s ! d ! i)) ! d \<and>
         (n_dt s ! d ! (t_dv s ! d ! i) = 1 \<longrightarrow> 0 < m_k s ! (k_dt s ! d ! (t_dv s ! d ! i)))"
  shows "\<exists>s'. update_params s d i u = Inr s'"
proof -
  let ?t = "t_dv s ! d ! i"
  let ?k = "k_dt s ! d ! ?t"
  let ?v = "doc ! i"
  note sh = wf_shapeD [OF wf]
  note dd = wf_docD [OF wf d doc]
  have t: "?t < length (k_dt s ! d)" using dd(4) [OF i] .
  have k: "?k < K s" using dd(5) [OF t] .
  have v: "?v < V s" using dd(3) [OF i] .
  have nd: "all_nonneg (n_dt s ! d)" using nn d sh by (simp add: nonneg_def all_nonneg2_nth)
  have a1: "all_nonneg ((n_dt s ! d)[?t := n_dt s ! d ! ?t + u])"
    using u pos all_nonneg_nth [OF nd, of ?t] t dd(2)
    by (intro all_nonneg_update [OF nd]) auto
  have rkv: "all_nonneg (n_kv s ! ?k)" using nn k sh by (simp add: nonneg_def all_nonneg2_nth)
  have a2: "all_nonneg2 ((n_kv s)[?k := (n_kv s ! ?k)[?v := n_kv s ! ?k ! ?v + u]])"
    using nn u pos all_nonneg_nth [OF rkv, of ?v] v k sh
    by (intro all_nonneg2_update all_nonneg_update rkv) (auto simp: nonneg_def)
  have rkd: "all_nonneg (n_kd s ! ?k)" using nn k sh by (simp add: nonneg_def all_nonneg2_nth)
  have a3: "all_nonneg2 ((n_kd s)[?k := (n_kd s ! ?k)[d := n_kd s ! ?k ! d + u]])"
    using nn u pos all_nonneg_nth [OF rkd, of d] d k sh
    by (intro all_nonneg2_update all_nonneg_update rkd) (auto simp: nonneg_def)
  have mk: "all_nonneg (m_k s)" using nn by (simp add: nonneg_def)
  have a4: "all_nonneg ((m_k s)[?k := m_k s ! ?k + 1])"
    using all_nonneg_nth [OF mk, of ?k] k sh by (intro all_nonneg_update [OF mk]) auto
  have a5: "u = -1 \<Longrightarrow> n_dt s ! d ! ?t = 1 \<Longrightarrow> all_nonneg ((m_k s)[?k := m_k s ! ?k - 1])"
    using pos by (intro all_nonneg_update [OF mk]) auto
  show ?thesis
    using u d i t k v sh dd(1,2) doc a1 a2 a3 a4 a5 mk
    unfolding update_params_def
    by (auto simp: key_e_ok nth_e_ok doc_e_ok add_at_ok add_at2_ok)
qed

subsection \<open>\<^verbatim>\<open>_initialize\<close>\<close>

lemma init_docs_append:
  "init_docs s (xs @ ys) = bind_e (init_docs s xs) (\<lambda>s'. init_docs s' ys)"
  by (induction xs arbitrary: s) (auto simp: bind_e_def split: sum.splits)

lemma remdups_replicate0: "remdups (replicate n x) = (if n = 0 then [] else [x])"
  by (induction n) auto

lemma count_words_Inr_iff:
  "(count_words m ws = Inr m') =
     (if ws = [] then m' = m
      else 0 < length m \<and> (\<forall>v\<in>set ws. v < length (m ! 0)) \<and>
        m' = m[0 := map (\<lambda>v. m ! 0 ! v + int (count_list ws v)) [0..<length (m ! 0)]])"
proof (induction ws arbitrary: m)
  case Nil
  show ?case by auto
next
  case (Cons w ws)
  let ?m1 = "m[0 := (m ! 0)[w := m ! 0 ! w + 1]]"
  have row: "map (\<lambda>v. (r[w := r ! w + 1]) ! v + int (count_list ws v)) [0..<length r]
      = map (\<lambda>v. r ! v + int (count_list (w # ws) v)) [0..<length r]" for r :: "int list"
    by (rule nth_equalityI) (auto simp: nth_list_update)
  have row0: "r[w := r ! w + 1] = map (\<lambda>v. r ! v + int (count_list [w] v)) [0..<length r]"
    for r :: "int list"
    by (rule nth_equalityI) (auto simp: nth_list_update)
  have eq: "?m1[0 := map (\<lambda>v. ?m1 ! 0 ! v + int (count_list ws v)) [0..<length (?m1 ! 0)]]
     = m[0 := map (\<lambda>v. m ! 0 ! v + int (count_list (w # ws) v)) [0..<length (m ! 0)]]"
    if "0 < length m" "w < length (m ! 0)"
    using that by (simp add: row [of "m ! 0"])
  have eq0: "?m1 = m[0 := map (\<lambda>v. m ! 0 ! v + int (count_list [w] v)) [0..<length (m ! 0)]]"
    by (rule arg_cong [where f = "list_update m 0"]) (rule row0)
  show ?case
  proof (cases "0 < length m \<and> w < length (m ! 0)")
    case True
    then show ?thesis
      using Cons.IH [of ?m1] eq eq0 by (cases "ws = []") auto
  next
    case False
    then show ?thesis by auto
  qed
qed

lemma init_doc_Inr_iff:
  "(init_doc s d = Inr s') =
   (\<exists>doc. map_of (corpus s) d = Some doc \<and> doc \<noteq> [] \<and> 0 < length (n_kv s) \<and>
      (\<forall>v\<in>set doc. v < length (n_kv s ! 0)) \<and> 0 < length (n_kd s) \<and> d < length (n_kd s ! 0) \<and>
      0 < length (m_k s) \<and>
      s' = s\<lparr>t_dv := t_dv s @ [replicate (length doc) 0], k_dt := k_dt s @ [[0]],
              n_dt := n_dt s @ [[int (length doc)]],
              n_kv := (n_kv s)[0 := map (\<lambda>v. n_kv s ! 0 ! v + int (count_list doc v))
                                     [0..<length (n_kv s ! 0)]],
              n_kd := (n_kd s)[0 := (n_kd s ! 0)[d := int (length doc)]],
              m_k := (m_k s)[0 := m_k s ! 0 + 1]\<rparr>)"
  unfolding init_doc_def Let_def
  by (auto simp: remdups_replicate0 count_words_Inr_iff split: if_splits)

lemma initialize_scenario: "initialize [(0, [0, 0, 0, 1, 1])] 1 1 1 1 = Inr scenario"
  by (simp add: initialize_def init_doc_def scenario_def doc_e_def add_at2_def add_at_def
      assert_e_def Let_def numeral_2_eq_2)

text \<open>
  Claim C3.  In a well-formed state whose counts are non-negative and below
  \<open>count_bound\<close>, where the count of the token's table, the count of its word under the
  table's topic and the count of its document under that topic are positive, and the
  topic has a table when the token is alone on its table (the token is counted),
  \<^verbatim>\<open>update_params(d, i, -1)\<close> returns and has decremented \<^verbatim>\<open>n_dt[d][t]\<close>, \<^verbatim>\<open>n_kv[k][v]\<close> and
  \<^verbatim>\<open>n_kd[k][d]\<close> by one, and \<^verbatim>\<open>m_k[k]\<close> exactly when the table's count has reached zero;
  \<^verbatim>\<open>update_params(d, i, +1)\<close> returns and has incremented the three counts by one, and
  \<^verbatim>\<open>m_k[k]\<close> exactly when the table's count went from zero to one.  On the scenario,
  retracting token 0 leaves \<^verbatim>\<open>n_dt[0][0] == 4\<close> and \<^verbatim>\<open>n_kv[0][0] == 2\<close>.
\<close>

theorem update_params_counts:
  assumes wf: "well_formed s" and nn: "nonneg s" and sc: "small_counts s" and d: "d < D s"
    and doc: "map_of (corpus s) d = Some doc" and i: "i < length doc"
    and t: "t = t_dv s ! d ! i" and k: "k = k_dt s ! d ! t" and v: "v = doc ! i"
  shows "(0 < n_dt s ! d ! t \<and> 0 < n_kv s ! k ! v \<and> 0 < n_kd s ! k ! d \<and>
          (n_dt s ! d ! t = 1 \<longrightarrow> 0 < m_k s ! k) \<longrightarrow>
          (\<exists>s'. update_params s d i (-1) = Inr s' \<and>
                n_dt s' ! d ! t = n_dt s ! d ! t - 1 \<and>
                n_kv s' ! k ! v = n_kv s ! k ! v - 1 \<and>
                n_kd s' ! k ! d = n_kd s ! k ! d - 1 \<and>
                m_k s' ! k = (if n_dt s' ! d ! t = 0 then m_k s ! k - 1 else m_k s ! k))) \<and>
         (\<exists>s'. update_params s d i 1 = Inr s' \<and>
                n_dt s' ! d ! t = n_dt s ! d ! t + 1 \<and>
                n_kv s' ! k ! v = n_kv s ! k ! v + 1 \<and>
                n_kd s' ! k ! d = n_kd s ! k ! d + 1 \<and>
                m_k s' ! k = (if n_dt s ! d ! t = 0 then m_k s ! k + 1 else m_k s ! k)) \<and>
         (\<exists>s0 s1. initialize [(0, [0, 0, 0, 1, 1])] 1 1 1 1 = Inr s0 \<and>
                update_params s0 0 0 (-1) = Inr s1 \<and>
                n_dt s1 ! 0 ! 0 = 4 \<and> n_kv s1 ! 0 ! 0 = 2)"
proof (intro conjI impI)
  note sh = wf_shapeD [OF wf]
  note dd = wf_docD [OF wf d doc]
  have tl: "t < length (k_dt s ! d)" using dd(4) [OF i] t by simp
  have kl: "k < K s" using dd(5) [OF tl] k by simp
  have vl: "v < V s" using dd(3) [OF i] v by simp
  {
    assume pos: "0 < n_dt s ! d ! t \<and> 0 < n_kv s ! k ! v \<and> 0 < n_kd s ! k ! d \<and>
          (n_dt s ! d ! t = 1 \<longrightarrow> 0 < m_k s ! k)"
    then obtain s' where s': "update_params s d i (-1) = Inr s'"
      using update_params_ok [OF wf nn d doc i, of "-1"] t k v by auto
    from update_params_InrD [OF s'] doc
    show "\<exists>s'. update_params s d i (-1) = Inr s' \<and>
                n_dt s' ! d ! t = n_dt s ! d ! t - 1 \<and>
                n_kv s' ! k ! v = n_kv s ! k ! v - 1 \<and>
                n_kd s' ! k ! d = n_kd s ! k ! d - 1 \<and>
                m_k s' ! k = (if n_dt s' ! d ! t = 0 then m_k s ! k - 1 else m_k s ! k)"
      using s' t k v tl kl vl d sh dd(2) by auto
  }
  obtain s' where s': "update_params s d i 1 = Inr s'"
    using update_params_ok [OF wf nn d doc i, of 1] by auto
  from update_params_InrD [OF s'] doc
  show "\<exists>s'. update_params s d i 1 = Inr s' \<and>
                n_dt s' ! d ! t = n_dt s ! d ! t + 1 \<and>
                n_kv s' ! k ! v = n_kv s ! k ! v + 1 \<and>
                n_kd s' ! k ! d = n_kd s ! k ! d + 1 \<and>
                m_k s' ! k = (if n_dt s ! d ! t = 0 then m_k s ! k + 1 else m_k s ! k)"
    using s' t k v tl kl vl d sh dd(2) by auto
  show "\<exists>s0 s1. initialize [(0, [0, 0, 0, 1, 1])] 1 1 1 1 = Inr s0 \<and>
                update_params s0 0 0 (-1) = Inr s1 \<and>
                n_dt s1 ! 0 ! 0 = 4 \<and> n_kv s1 ! 0 ! 0 = 2"
    unfolding initialize_scenario
    by (simp add: update_params_def scenario_def doc_e_def add_at2_def add_at_def
        assert_e_def key_e_def nth_e_def all_nonneg_def all_nonneg2_def)
qed

lemma scenario_well_formed: "well_formed scenario"
  by (simp add: well_formed_def wf_doc_def shape_def scenario_def)

lemma scenario_nonneg: "nonneg scenario"
  by (simp add: nonneg_def all_nonneg_def all_nonneg2_def scenario_def)

lemma scenario_small_counts: "small_counts scenario"
  by (simp add: small_counts_def count_bound_def scenario_def)

theorem update_params_counts_witness:
  "\<exists>s'. update_params scenario 0 0 (-1) = Inr s' \<and>
         n_dt s' ! 0 ! 0 = 4 \<and> n_kv s' ! 0 ! 0 = 2 \<and> n_kd s' ! 0 ! 0 = 4 \<and> m_k s' ! 0 = 1"
proof -
  have h: "0 < D scenario" "map_of (corpus scenario) 0 = Some [0, 0, 0, 1, 1]"
    "0 < length [0::nat, 0, 0, 1, 1]" "(0::nat) = t_dv scenario ! 0 ! 0"
    "(0::nat) = k_dt scenario ! 0 ! 0" "(0::nat) = [0, 0, 0, 1, 1] ! 0"
    by (simp_all add: scenario_def)
  from update_params_counts [OF scenario_well_formed scenario_nonneg scenario_small_counts h]
  have "\<exists>s'. update_params scenario 0 0 (-1) = Inr s' \<and>
                n_dt s' ! 0 ! 0 = n_dt scenario ! 0 ! 0 - 1 \<and>
                n_kv s' ! 0 ! 0 = n_kv scenario ! 0 ! 0 - 1 \<and>
                n_kd s' ! 0 ! 0 = n_kd scenario ! 0 ! 0 - 1 \<and>
                m_k s' ! 0 = (if n_dt s' ! 0 ! 0 = 0 then m_k scenario ! 0 - 1 else m_k scenario ! 0)"
    by (simp add: scenario_def)
  then show ?thesis by (auto simp: scenario_def)
qed

text \<open>
  A positive count of the token's table is not enough for the retraction to return:
  in \<open>uncounted_word\<close> the assertion of line 270 fails, in \<open>uncounted_table\<close> the
  assertion of line 289.
\<close>

theorem update_params_uncounted:
  "well_formed uncounted_word \<and> nonneg uncounted_word \<and> small_counts uncounted_word \<and>
   0 < n_dt uncounted_word ! 0 ! (t_dv uncounted_word ! 0 ! 0) \<and>
   update_params uncounted_word 0 0 (-1) = Inl AssertionError \<and>
   well_formed uncounted_table \<and> nonneg uncounted_table \<and> small_counts uncounted_table \<and>
   0 < n_dt uncounted_table ! 0 ! (t_dv uncounted_table ! 0 ! 0) \<and>
   update_params uncounted_table 0 0 (-1) = Inl AssertionError"
  by (simp add: update_params_def uncounted_word_def uncounted_table_def well_formed_def
      wf_doc_def shape_def nonneg_def small_counts_def count_bound_def all_nonneg_def
      all_nonneg2_def key_e_def nth_e_def doc_e_def add_at_def add_at2_def assert_e_def)

subsection \<open>The table-to-topic step leaves the table sizes alone\<close>

lemma grow_topics_InrD:
  "grow_topics s = Inr s' \<Longrightarrow>
     s' = s\<lparr>K := K s + 1, n_kv := n_kv s @ [replicate (V s) 0],
            n_kd := n_kd s @ [replicate (D s) 0], m_k := m_k s @ [0]\<rparr>"
  by (auto simp: grow_topics_def Let_def)

lemma reassign_table_frame:
  assumes "reassign_table s d t n ws old_topic new_topic = Inr s'"
  shows "n_dt s' = n_dt s \<and> t_dv s' = t_dv s \<and> corpus s' = corpus s \<and> V s' = V s \<and> D s' = D s"
  using assms unfolding reassign_table_def Let_def
  by (auto split: if_splits dest!: grow_topics_InrD)

lemma uint8_small: "i < 256 \<Longrightarrow> uint8 i = i"
  by (simp add: uint8_def unat_of_nat)

lemma table_step_scenario: "table_step (\<lambda>x. 0) scenario 0 0 (1/2) = Inr scenario_moved"
  by (simp add: table_step_def scenario_def scenario_moved_def selected_words_def topic_logws_def
      new_topic_logw_def old_topic_logw_def gl_diff_def gammaln_e_def log_e_def freq_dist_def
      draw_def cumsum_def uint8_small reassign_table_def grow_topics_def nth2_e_def nth_e_def
      Let_def key_e_def doc_e_def add_at_def add_at2_def assert_e_def numeral_2_eq_2)

text \<open>
  Claim C9.  A table-to-topic step that returns has modified neither \<^verbatim>\<open>_n_dt\<close> nor
  \<^verbatim>\<open>_t_dv\<close>: the two dicts are the same before and after, for every document and every
  table, whatever index the draw selects, the slot of a new topic included.
\<close>

theorem table_step_keeps_n_dt:
  assumes "table_step gl s d t u = Inr s'"
  shows "n_dt s' = n_dt s \<and> t_dv s' = t_dv s"
  using assms unfolding table_step_def Let_def
  by (auto split: if_splits dest!: reassign_table_frame)

theorem table_step_keeps_n_dt_witness:
  "table_step (\<lambda>x. 0) scenario 0 0 (1/2) = Inr scenario_moved \<and> K scenario_moved = K scenario + 1 \<and>
   n_dt scenario_moved = n_dt scenario \<and> t_dv scenario_moved = t_dv scenario"
  using table_step_keeps_n_dt [OF table_step_scenario] table_step_scenario
  by (simp add: scenario_def scenario_moved_def)

subsection \<open>The loop of \<^verbatim>\<open>_initialize\<close>\<close>

lemma init_docs_snoc:
  "(init_docs s0 [0..<Suc j] = Inr s) = (\<exists>s1. init_docs s0 [0..<j] = Inr s1 \<and> init_doc s1 j = Inr s)"
  by (simp add: init_docs_append)

lemma init_docs_frame:
  "init_docs s0 [0..<j] = Inr s \<Longrightarrow>
     corpus s = corpus s0 \<and> K s = K s0 \<and> V s = V s0 \<and> D s = D s0 \<and>
     alpha s = alpha s0 \<and> gamma s = gamma s0 \<and> eta s = eta s0 \<and>
     length (n_kv s) = length (n_kv s0) \<and> length (n_kv s ! 0) = length (n_kv s0 ! 0) \<and>
     length (n_kd s) = length (n_kd s0) \<and> length (n_kd s ! 0) = length (n_kd s0 ! 0) \<and>
     length (m_k s) = length (m_k s0)"
proof (induction j arbitrary: s)
  case 0 then show ?case by simp
next
  case (Suc j)
  then obtain s1 where s1: "init_docs s0 [0..<j] = Inr s1" and s: "init_doc s1 j = Inr s"
    unfolding init_docs_snoc by blast
  from Suc.IH [OF s1] s show ?case
    unfolding init_doc_Inr_iff by (auto simp: nth_list_update)
qed

lemma init_docs_seating:
  "init_docs s0 [0..<j] = Inr s \<Longrightarrow>
     t_dv s = t_dv s0 @ map (\<lambda>d. replicate (length (doc_of s0 d)) 0) [0..<j] \<and>
     k_dt s = k_dt s0 @ replicate j [0] \<and>
     n_dt s = n_dt s0 @ map (\<lambda>d. [int (length (doc_of s0 d))]) [0..<j]"
proof (induction j arbitrary: s)
  case 0 then show ?case by simp
next
  case (Suc j)
  then obtain s1 where s1: "init_docs s0 [0..<j] = Inr s1" and s: "init_doc s1 j = Inr s"
    unfolding init_docs_snoc by blast
  from Suc.IH [OF s1] init_docs_frame [OF s1] s show ?case
    unfolding init_doc_Inr_iff by (auto simp: doc_of_def replicate_append_same)
qed

lemma init_docs_docs:
  "init_docs s0 [0..<j] = Inr s \<Longrightarrow> d < j \<Longrightarrow>
     \<exists>doc. map_of (corpus s0) d = Some doc \<and> doc \<noteq> [] \<and> (\<forall>v\<in>set doc. v < length (n_kv s0 ! 0)) \<and>
        d < length (n_kd s0 ! 0) \<and> 0 < length (n_kv s0) \<and> 0 < length (n_kd s0) \<and> 0 < length (m_k s0)"
proof (induction j arbitrary: s)
  case 0 then show ?case by simp
next
  case (Suc j)
  then obtain s1 where s1: "init_docs s0 [0..<j] = Inr s1" and s: "init_doc s1 j = Inr s"
    unfolding init_docs_snoc by blast
  show ?case
  proof (cases "d < j")
    case True then show ?thesis using Suc.IH [OF s1] by simp
  next
    case False
    then have "d = j" using Suc.prems by simp
    then show ?thesis using init_docs_frame [OF s1] s unfolding init_doc_Inr_iff by auto
  qed
qed

lemma init_docs_counts:
  "init_docs s0 [0..<j] = Inr s \<Longrightarrow>
     n_kv s = (n_kv s0)[0 := map (\<lambda>v. n_kv s0 ! 0 ! v +
                  sum_list (map (\<lambda>d. int (count_list (doc_of s0 d) v)) [0..<j])) [0..<length (n_kv s0 ! 0)]] \<and>
     n_kd s = (n_kd s0)[0 := map (\<lambda>d. if d < j then int (length (doc_of s0 d)) else n_kd s0 ! 0 ! d)
                  [0..<length (n_kd s0 ! 0)]] \<and>
     m_k s = (m_k s0)[0 := m_k s0 ! 0 + int j]"
proof (induction j arbitrary: s)
  case 0 then show ?case by (simp add: map_nth)
next
  case (Suc j)
  then obtain s1 where s1: "init_docs s0 [0..<j] = Inr s1" and s: "init_doc s1 j = Inr s"
    unfolding init_docs_snoc by blast
  note fr = init_docs_frame [OF s1]
  let ?R = "map (\<lambda>v. n_kv s0 ! 0 ! v +
                  sum_list (map (\<lambda>d. int (count_list (doc_of s0 d) v)) [0..<j])) [0..<length (n_kv s0 ! 0)]"
  let ?Q = "map (\<lambda>d. if d < j then int (length (doc_of s0 d)) else n_kd s0 ! 0 ! d)
                  [0..<length (n_kd s0 ! 0)]"
  have ih1: "n_kv s1 = (n_kv s0)[0 := ?R]" and ih2: "n_kd s1 = (n_kd s0)[0 := ?Q]"
    and ih3: "m_k s1 = (m_k s0)[0 := m_k s0 ! 0 + int j]"
    using Suc.IH [OF s1] by blast+
  from s obtain doc where doc: "map_of (corpus s1) j = Some doc" and l1: "0 < length (n_kv s1)"
      and l2: "0 < length (n_kd s1)" and l3: "j < length (n_kd s1 ! 0)" and l4: "0 < length (m_k s1)"
    and kv: "n_kv s = (n_kv s1)[0 := map (\<lambda>v. n_kv s1 ! 0 ! v + int (count_list doc v))
                                          [0..<length (n_kv s1 ! 0)]]"
    and kd: "n_kd s = (n_kd s1)[0 := (n_kd s1 ! 0)[j := int (length doc)]]"
    and mk: "m_k s = (m_k s1)[0 := m_k s1 ! 0 + 1]"
    unfolding init_doc_Inr_iff by auto
  have dj: "doc_of s0 j = doc" using doc fr by (simp add: doc_of_def)
  have r0: "n_kv s1 ! 0 = ?R" using ih1 l1 fr by simp
  have q0: "n_kd s1 ! 0 = ?Q" using ih2 l2 fr by simp
  have m0: "m_k s1 ! 0 = m_k s0 ! 0 + int j" using ih3 l4 fr by simp
  have rr: "map (\<lambda>v. ?R ! v + int (count_list doc v)) [0..<length ?R] =
        map (\<lambda>v. n_kv s0 ! 0 ! v +
                  sum_list (map (\<lambda>d. int (count_list (doc_of s0 d) v)) [0..<Suc j])) [0..<length (n_kv s0 ! 0)]"
    by (rule nth_equalityI) (simp_all add: dj)
  have qq: "?Q[j := int (length doc)] =
        map (\<lambda>d. if d < Suc j then int (length (doc_of s0 d)) else n_kd s0 ! 0 ! d)
                  [0..<length (n_kd s0 ! 0)]"
    by (rule nth_equalityI) (auto simp: dj nth_list_update less_Suc_eq)
  have 1: "n_kv s = (n_kv s0)[0 := map (\<lambda>v. n_kv s0 ! 0 ! v +
                  sum_list (map (\<lambda>d. int (count_list (doc_of s0 d) v)) [0..<Suc j])) [0..<length (n_kv s0 ! 0)]]"
    unfolding kv r0 rr unfolding ih1 by simp
  have 2: "n_kd s = (n_kd s0)[0 := map (\<lambda>d. if d < Suc j then int (length (doc_of s0 d)) else n_kd s0 ! 0 ! d)
                  [0..<length (n_kd s0 ! 0)]]"
    unfolding kd q0 qq unfolding ih2 by simp
  have 3: "m_k s = (m_k s0)[0 := m_k s0 ! 0 + int (Suc j)]"
    unfolding mk m0 unfolding ih3 by (simp add: algebra_simps)
  show ?case using 1 2 3 by blast
qed

lemma init_docs_ok:
  assumes "\<And>d. d < j \<Longrightarrow> \<exists>doc. map_of (corpus s0) d = Some doc \<and> doc \<noteq> [] \<and>
             (\<forall>v\<in>set doc. v < length (n_kv s0 ! 0)) \<and> d < length (n_kd s0 ! 0)"
    and "0 < length (n_kv s0)" "0 < length (n_kd s0)" "0 < length (m_k s0)"
  shows "\<exists>s. init_docs s0 [0..<j] = Inr s"
  using assms(1)
proof (induction j)
  case 0 show ?case by simp
next
  case (Suc j)
  then obtain s1 where s1: "init_docs s0 [0..<j] = Inr s1" by auto
  note fr = init_docs_frame [OF s1]
  from Suc.prems [of j] obtain doc where doc: "map_of (corpus s0) j = Some doc" "doc \<noteq> []"
    "\<forall>v\<in>set doc. v < length (n_kv s0 ! 0)" "j < length (n_kd s0 ! 0)" by auto
  have "\<exists>s. init_doc s1 j = Inr s"
    unfolding init_doc_Inr_iff using doc fr assms(2-4) by auto
  then show ?case unfolding init_docs_snoc using s1 by blast
qed

lemma initialize_init_state:
  "initialize data K0 a g e = init_docs (init_state data K0 a g e) [0..<length data]"
  by (simp add: initialize_def init_state_def Let_def)

lemma initialize_InrD:
  assumes "initialize data K0 a g e = Inr s"
  shows "corpus s = data" "K s = K0" "V s = length (remdups (concat (map snd data)))"
    "D s = length data" "alpha s = a" "gamma s = g" "eta s = e"
    "t_dv s = map (\<lambda>d. replicate (length (doc_of s d)) 0) [0..<D s]"
    "k_dt s = replicate (D s) [0]"
    "n_dt s = map (\<lambda>d. [int (length (doc_of s d))]) [0..<D s]"
    "n_kv s = (replicate K0 (replicate (V s) 0))
                [0 := map (\<lambda>v. sum_list (map (\<lambda>d. int (count_list (doc_of s d) v)) [0..<D s])) [0..<V s]]"
    "n_kd s = (replicate K0 (replicate (D s) 0))[0 := map (\<lambda>d. int (length (doc_of s d))) [0..<D s]]"
    "m_k s = (replicate K0 0)[0 := int (D s)]"
    "d < D s \<Longrightarrow> \<exists>doc. map_of data d = Some doc \<and> doc \<noteq> [] \<and> (\<forall>v\<in>set doc. v < V s) \<and> 0 < K0"
proof -
  let ?s0 = "init_state data K0 a g e"
  have run: "init_docs ?s0 [0..<length data] = Inr s"
    using assms by (simp add: initialize_init_state)
  note fr = init_docs_frame [OF run] and se = init_docs_seating [OF run]
    and co = init_docs_counts [OF run]
  show c: "corpus s = data" and "K s = K0" and v: "V s = length (remdups (concat (map snd data)))"
    and d: "D s = length data" and "alpha s = a" and "gamma s = g" and "eta s = e"
    using fr by (simp_all add: init_state_def)
  have dof: "doc_of ?s0 = doc_of s" using c by (simp add: doc_of_def init_state_def fun_eq_iff)
  show "t_dv s = map (\<lambda>d. replicate (length (doc_of s d)) 0) [0..<D s]"
    "k_dt s = replicate (D s) [0]"
    "n_dt s = map (\<lambda>d. [int (length (doc_of s d))]) [0..<D s]"
    using se unfolding dof d by (simp_all add: init_state_def)
  have n0: "K0 \<noteq> 0 \<Longrightarrow> n_kv ?s0 ! 0 = replicate (V s) 0" "K0 \<noteq> 0 \<Longrightarrow> n_kd ?s0 ! 0 = replicate (D s) 0"
      "K0 \<noteq> 0 \<Longrightarrow> m_k ?s0 ! 0 = 0"
    using v d by (simp_all add: init_state_def)
  have nn: "n_kv ?s0 = replicate K0 (replicate (V s) 0)" "n_kd ?s0 = replicate K0 (replicate (D s) 0)"
      "m_k ?s0 = replicate K0 0"
    using v d by (simp_all add: init_state_def)
  show "n_kv s = (replicate K0 (replicate (V s) 0))
                [0 := map (\<lambda>v. sum_list (map (\<lambda>d. int (count_list (doc_of s d) v)) [0..<D s])) [0..<V s]]"
  proof (cases "K0 = 0")
    case True then show ?thesis using co nn by simp
  next
    case False
    have "map (\<lambda>v. n_kv ?s0 ! 0 ! v +
                  sum_list (map (\<lambda>d. int (count_list (doc_of ?s0 d) v)) [0..<length data]))
             [0..<length (n_kv ?s0 ! 0)] =
          map (\<lambda>v. sum_list (map (\<lambda>d. int (count_list (doc_of s d) v)) [0..<D s])) [0..<V s]"
      unfolding n0(1) [OF False] dof d by (rule nth_equalityI) simp_all
    then show ?thesis using co nn by simp
  qed
  show "n_kd s = (replicate K0 (replicate (D s) 0))[0 := map (\<lambda>d. int (length (doc_of s d))) [0..<D s]]"
  proof (cases "K0 = 0")
    case True then show ?thesis using co nn by simp
  next
    case False
    have "map (\<lambda>d. if d < length data then int (length (doc_of ?s0 d)) else n_kd ?s0 ! 0 ! d)
                  [0..<length (n_kd ?s0 ! 0)] =
          map (\<lambda>d. int (length (doc_of s d))) [0..<D s]"
      unfolding n0(2) [OF False] dof d by (rule nth_equalityI) simp_all
    then show ?thesis using co nn by simp
  qed
  show "m_k s = (replicate K0 0)[0 := int (D s)]"
  proof (cases "K0 = 0")
    case True then show ?thesis using co nn by simp
  next
    case False then show ?thesis using co nn n0(3) d by simp
  qed
  show "\<exists>doc. map_of data d = Some doc \<and> doc \<noteq> [] \<and> (\<forall>v\<in>set doc. v < V s) \<and> 0 < K0" if "d < D s"
  proof -
    from init_docs_docs [OF run, of d] that d
    obtain doc where doc: "map_of data d = Some doc" "doc \<noteq> []"
      "\<forall>v\<in>set doc. v < length (n_kv ?s0 ! 0)" "0 < length (n_kv ?s0)"
      by (auto simp: init_state_def)
    from doc(4) have k: "0 < K0" by (simp add: init_state_def)
    with doc show ?thesis using n0(1) by auto
  qed
qed

lemma initialize_ok:
  assumes "\<And>d. d < length data \<Longrightarrow> \<exists>doc. map_of data d = Some doc \<and> doc \<noteq> [] \<and>
             (\<forall>v\<in>set doc. v < length (remdups (concat (map snd data))))"
    and "0 < K0"
  shows "\<exists>s. initialize data K0 a g e = Inr s"
  unfolding initialize_init_state
  by (rule init_docs_ok) (use assms in \<open>auto simp: init_state_def\<close>)

text \<open>
  \<^verbatim>\<open>_initialize\<close> does not return for every corpus: a word id that is not below the
  number of distinct word ids is outside \<^verbatim>\<open>_n_kv\<close> (line 96), an empty document fails
  the assertion of line 87, and a key set other than \<^verbatim>\<open>0 .. D-1\<close> has no document for
  some \<^verbatim>\<open>d\<close> (line 83).
\<close>

theorem initialize_raises:
  "initialize [(0, [0, 2])] 1 1 1 1 = Inl IndexError \<and>
   initialize [(0, [])] 1 1 1 1 = Inl AssertionError \<and>
   initialize [(1, [0])] 1 1 1 1 = Inl KeyError"
  by (simp add: initialize_def init_doc_def doc_e_def add_at2_def add_at_def assert_e_def
      bind_e_def Let_def numeral_2_eq_2)

text \<open>
  Claim C7 (amended).  For a corpus that \<open>corpus_ok\<close> accepts and \<open>K = 1\<close>, \<^verbatim>\<open>_initialize\<close>
  returns; every token of every document is on table 0 of its document, the only
  table of the document, which has topic 0; \<^verbatim>\<open>n_kv[0][v]\<close> is the number of occurrences
  of \<open>v\<close> in all documents, \<^verbatim>\<open>n_kd[0][d]\<close> the length of document \<open>d\<close>, and \<^verbatim>\<open>m_k[0]\<close> is \<open>D\<close>.
  For the corpus \<^verbatim>\<open>{0: [0,0,0,1,1]}\<close> the result is the scenario, with \<^verbatim>\<open>n_kv = [[3,2]]\<close>,
  \<^verbatim>\<open>n_kd = [[5]]\<close>, \<^verbatim>\<open>m_k = [1]\<close> and the five tokens on table 0 of topic 0.
\<close>

theorem initialize_seats_all:
  assumes "corpus_ok data"
  shows "\<exists>s. initialize data 1 a g e = Inr s \<and> corpus s = data \<and> K s = 1 \<and>
           D s = length data \<and> V s = length (remdups (concat (map snd data))) \<and>
           t_dv s = map (\<lambda>d. replicate (length (doc_of s d)) 0) [0..<D s] \<and>
           k_dt s = replicate (D s) [0] \<and>
           n_dt s = map (\<lambda>d. [int (length (doc_of s d))]) [0..<D s] \<and>
           n_kv s = [map (\<lambda>v. sum_list (map (\<lambda>d. int (count_list (doc_of s d) v)) [0..<D s]))
                       [0..<V s]] \<and>
           n_kd s = [map (\<lambda>d. int (length (doc_of s d))) [0..<D s]] \<and>
           m_k s = [int (D s)] \<and>
           initialize [(0, [0, 0, 0, 1, 1])] 1 1 1 1 = Inr scenario \<and>
           n_kv scenario = [[3, 2]] \<and> n_kd scenario = [[5]] \<and> m_k scenario = [1] \<and>
           t_dv scenario = [[0, 0, 0, 0, 0]] \<and> k_dt scenario = [[0]]"
proof -
  have "\<exists>doc. map_of data d = Some doc \<and> doc \<noteq> [] \<and>
             (\<forall>v\<in>set doc. v < length (remdups (concat (map snd data))))" if "d < length data" for d
  proof -
    from assms that have "case map_of data d of None \<Rightarrow> False
        | Some doc \<Rightarrow> doc \<noteq> [] \<and>
            list_all (\<lambda>v. v < length (remdups (concat (map snd data)))) doc"
      by (simp add: corpus_ok_def list_all_upt)
    then show ?thesis by (cases "map_of data d") (simp_all add: list_all_iff)
  qed
  then obtain s where s: "initialize data 1 a g e = Inr s"
    using initialize_ok [of data 1 a g e] by auto
  note r = initialize_InrD [OF s]
  have A: "initialize data 1 a g e = Inr s \<and> corpus s = data \<and> K s = 1 \<and>
           D s = length data \<and> V s = length (remdups (concat (map snd data))) \<and>
           t_dv s = map (\<lambda>d. replicate (length (doc_of s d)) 0) [0..<D s] \<and>
           k_dt s = replicate (D s) [0] \<and>
           n_dt s = map (\<lambda>d. [int (length (doc_of s d))]) [0..<D s] \<and>
           n_kv s = [map (\<lambda>v. sum_list (map (\<lambda>d. int (count_list (doc_of s d) v)) [0..<D s]))
                       [0..<V s]] \<and>
           n_kd s = [map (\<lambda>d. int (length (doc_of s d))) [0..<D s]] \<and>
           m_k s = [int (D s)]"
    using s r(1-4) r(8-10) r(11-13) by simp
  have B: "initialize [(0, [0, 0, 0, 1, 1])] 1 1 1 1 = Inr scenario \<and>
           n_kv scenario = [[3, 2]] \<and> n_kd scenario = [[5]] \<and> m_k scenario = [1] \<and>
           t_dv scenario = [[0, 0, 0, 0, 0]] \<and> k_dt scenario = [[0]]"
    using initialize_scenario by (simp add: scenario_def)
  from A B show ?thesis by blast
qed

theorem initialize_seats_all_witness:
  "\<exists>s. initialize [(0, [0, 1]), (1, [1])] 1 1 1 1 = Inr s \<and>
        t_dv s = [[0, 0], [0]] \<and> k_dt s = [[0], [0]] \<and> n_dt s = [[2], [1]] \<and>
        n_kv s = [[1, 2]] \<and> n_kd s = [[2, 1]] \<and> m_k s = [2]"
proof -
  have ok: "corpus_ok [(0, [0, 1]), (1, [1])]"
    by (simp add: corpus_ok_def count_bound_def numeral_2_eq_2)
  let ?data = "[(0, [0, 1]), (1, [1::nat])]"
  from initialize_seats_all [OF ok, of 1 1 1] show ?thesis
  proof (elim exE conjE)
    fix s
    assume s: "initialize ?data 1 1 1 1 = Inr s"
      and c: "corpus s = ?data" and d: "D s = length ?data"
      and v: "V s = length (remdups (concat (map snd ?data)))"
      and r: "t_dv s = map (\<lambda>d. replicate (length (doc_of s d)) 0) [0..<D s]"
           "k_dt s = replicate (D s) [0]"
           "n_dt s = map (\<lambda>d. [int (length (doc_of s d))]) [0..<D s]"
           "n_kv s = [map (\<lambda>v. sum_list (map (\<lambda>d. int (count_list (doc_of s d) v)) [0..<D s]))
                       [0..<V s]]"
           "n_kd s = [map (\<lambda>d. int (length (doc_of s d))) [0..<D s]]"
           "m_k s = [int (D s)]"
    have dof: "doc_of s 0 = [0, 1]" "doc_of s (Suc 0) = [1]"
      using c by (simp_all add: doc_of_def)
    have d2: "D s = Suc (Suc 0)" and v2: "V s = Suc (Suc 0)" using d v by simp_all
    show ?thesis
      using s r unfolding d2 v2 by (intro exI [of _ s]) (simp add: dof)
  qed
qed

subsection \<open>What the steps leave unchanged\<close>

lemma sum_list_add_at:
  "t < length xs \<Longrightarrow> sum_list (xs[t := xs ! t + u]) = sum_list xs + (u::int)"
  by (induction xs arbitrary: t) (auto split: nat.splits)

lemma shape_update:
  "shape m r c \<Longrightarrow> shape (m[k := (m ! k)[j := x]]) r c"
  by (cases "k < length m") (auto simp: shape_def list_all_length nth_list_update)

lemma update_params_frame:
  assumes "update_params s d i u = Inr s'"
  shows "corpus s' = corpus s" "K s' = K s" "V s' = V s" "D s' = D s"
    "t_dv s' = t_dv s" "k_dt s' = k_dt s" "length (n_dt s') = length (n_dt s)"
    "d < length (n_dt s)"
    "sum_list (n_dt s' ! d) = sum_list (n_dt s ! d) + u"
    "d' \<noteq> d \<Longrightarrow> n_dt s' ! d' = n_dt s ! d'"
    "shape (n_kv s) r c \<Longrightarrow> shape (n_kv s') r c"
proof -
  from update_params_InrD [OF assms] obtain doc where
    r: "d < length (n_dt s)" "t_dv s ! d ! i < length (n_dt s ! d)"
    and s': "s' = s\<lparr>n_dt := (n_dt s)[d := (n_dt s ! d)[t_dv s ! d ! i := n_dt s ! d ! (t_dv s ! d ! i) + u]],
              n_kv := (n_kv s)[k_dt s ! d ! (t_dv s ! d ! i) :=
                   (n_kv s ! (k_dt s ! d ! (t_dv s ! d ! i)))
                     [doc ! i := n_kv s ! (k_dt s ! d ! (t_dv s ! d ! i)) ! (doc ! i) + u]],
              n_kd := (n_kd s)[k_dt s ! d ! (t_dv s ! d ! i) :=
                   (n_kd s ! (k_dt s ! d ! (t_dv s ! d ! i)))
                     [d := n_kd s ! (k_dt s ! d ! (t_dv s ! d ! i)) ! d + u]],
              m_k := (if u = -1 \<and> n_dt s ! d ! (t_dv s ! d ! i) = 1
                      then (m_k s)[k_dt s ! d ! (t_dv s ! d ! i) :=
                             m_k s ! (k_dt s ! d ! (t_dv s ! d ! i)) - 1]
                      else if u = 1 \<and> n_dt s ! d ! (t_dv s ! d ! i) = 0
                      then (m_k s)[k_dt s ! d ! (t_dv s ! d ! i) :=
                             m_k s ! (k_dt s ! d ! (t_dv s ! d ! i)) + 1]
                      else m_k s)\<rparr>"
    by blast
  show "corpus s' = corpus s" "K s' = K s" "V s' = V s" "D s' = D s"
    "t_dv s' = t_dv s" "k_dt s' = k_dt s" "length (n_dt s') = length (n_dt s)"
    by (simp_all add: s')
  show "d < length (n_dt s)" by (rule r(1))
  show "sum_list (n_dt s' ! d) = sum_list (n_dt s ! d) + u"
    using r by (simp add: s' sum_list_add_at)
  show "n_dt s' ! d' = n_dt s ! d'" if "d' \<noteq> d"
    using that by (simp add: s')
  show "shape (n_kv s') r c" if "shape (n_kv s) r c"
    using that unfolding s' by (simp add: shape_update)
qed

lemma grow_topics_shape:
  "grow_topics s = Inr s' \<Longrightarrow> shape (n_kv s') (K s') (V s') \<and> V s' = V s"
  by (auto simp: grow_topics_def Let_def shape_def)

lemma seat_new_table_InrD:
  assumes "seat_new_table s d i f u = Inr s'"
  shows "\<exists>sa sb. sa = s\<lparr>n_dt := (n_dt s)[d := n_dt s ! d @ [0]],
                          k_dt := (k_dt s)[d := k_dt s ! d @ [0]]\<rparr> \<and>
           d < length (n_dt s) \<and> d < length (k_dt s) \<and>
           (sb = sa \<or> grow_topics sa = Inr sb) \<and> update_params sb d i 1 = Inr s'"
  using assms unfolding seat_new_table_def Let_def
  by (clarsimp split: if_splits) blast+

lemma word_step_InrD:
  assumes "word_step s d i u1 u2 = Inr s'"
  shows "\<exists>s1 s2 f n. update_params s d i (-1) = Inr s1 \<and>
           s2 = s1\<lparr>t_dv := (t_dv s1)[d := (t_dv s1 ! d)[i := n]]\<rparr> \<and>
           (seat_new_table s2 d i f u2 = Inr s' \<or> update_params s2 d i 1 = Inr s')"
  using assms unfolding word_step_def Let_def
  by (clarsimp split: if_splits prod.splits) blast+

lemma seat_new_table_frame:
  assumes "seat_new_table s d i f u = Inr s'"
  shows "corpus s' = corpus s" "V s' = V s" "D s' = D s"
    "length (n_dt s') = length (n_dt s)" "d < length (n_dt s)"
    "sum_list (n_dt s' ! d) = sum_list (n_dt s ! d) + 1"
    "d' \<noteq> d \<Longrightarrow> n_dt s' ! d' = n_dt s ! d'"
    "shape (n_kv s) (K s) (V s) \<Longrightarrow> shape (n_kv s') (K s') (V s')"
proof -
  from seat_new_table_InrD [OF assms] obtain sa sb where
    sa: "sa = s\<lparr>n_dt := (n_dt s)[d := n_dt s ! d @ [0]],
                   k_dt := (k_dt s)[d := k_dt s ! d @ [0]]\<rparr>"
    and d: "d < length (n_dt s)"
    and sb: "sb = sa \<or> grow_topics sa = Inr sb" and up: "update_params sb d i 1 = Inr s'"
    by blast
  note f = update_params_frame [OF up]
  have b: "corpus sb = corpus s \<and> V sb = V s \<and> D sb = D s \<and> n_dt sb = n_dt sa"
    using sb sa by (auto dest!: grow_topics_InrD)
  have bs: "shape (n_kv sb) (K sb) (V sb)" if "shape (n_kv s) (K s) (V s)"
    using sb that sa by (auto dest: grow_topics_shape)
  show "corpus s' = corpus s" "V s' = V s" "D s' = D s" using f b by simp_all
  show "length (n_dt s') = length (n_dt s)" using f b sa by simp
  show "d < length (n_dt s)" by (rule d)
  show "sum_list (n_dt s' ! d) = sum_list (n_dt s ! d) + 1"
    using f(9) b sa d by simp
  show "n_dt s' ! d' = n_dt s ! d'" if "d' \<noteq> d"
    using f(10) [OF that] b sa that by simp
  show "shape (n_kv s') (K s') (V s')" if "shape (n_kv s) (K s) (V s)"
    using f(11) [OF bs [OF that]] f(2,3) by simp
qed

lemma word_step_frame:
  assumes "word_step s d i u1 u2 = Inr s'"
  shows "corpus s' = corpus s" "V s' = V s" "D s' = D s"
    "length (n_dt s') = length (n_dt s)" "d < length (n_dt s)"
    "sum_list (n_dt s' ! d) = sum_list (n_dt s ! d)"
    "d' \<noteq> d \<Longrightarrow> n_dt s' ! d' = n_dt s ! d'"
    "shape (n_kv s) (K s) (V s) \<Longrightarrow> shape (n_kv s') (K s') (V s')"
proof -
  from word_step_InrD [OF assms] obtain s1 s2 f n where
    s1: "update_params s d i (-1) = Inr s1"
    and s2: "s2 = s1\<lparr>t_dv := (t_dv s1)[d := (t_dv s1 ! d)[i := n]]\<rparr>"
    and s': "seat_new_table s2 d i f u2 = Inr s' \<or> update_params s2 d i 1 = Inr s'"
    by blast
  note f1 = update_params_frame [OF s1]
  have sh2: "shape (n_kv s2) (K s2) (V s2)" if "shape (n_kv s) (K s) (V s)"
    using f1(11) [OF that] f1(2,3) s2 by simp
  from s' show "corpus s' = corpus s" "V s' = V s" "D s' = D s"
    "length (n_dt s') = length (n_dt s)"
    "sum_list (n_dt s' ! d) = sum_list (n_dt s ! d)"
    using f1 s2 by (auto dest: seat_new_table_frame update_params_frame)
  show "d < length (n_dt s)" by (rule f1(8))
  show "n_dt s' ! d' = n_dt s ! d'" if "d' \<noteq> d"
    using s' f1(10) [OF that] s2 seat_new_table_frame(7) [OF _ that] update_params_frame(10) [OF _ that]
    by auto
  show "shape (n_kv s') (K s') (V s')" if "shape (n_kv s) (K s) (V s)"
    using s' sh2 [OF that] seat_new_table_frame(8) update_params_frame(11) update_params_frame(2,3)
    by metis
qed

lemma move_words_shape:
  "move_words m old_topic new_topic fr ws = Inr m' \<Longrightarrow> shape m r c \<Longrightarrow> shape m' r c"
proof (induction ws arbitrary: m)
  case Nil then show ?case by simp
next
  case (Cons w ws)
  from Cons.prems(1) obtain m1 m2 where
    m1: "m1 = m[old_topic := (m ! old_topic)[w := m ! old_topic ! w + - fr w]]"
    and m2: "m2 = m1[new_topic := (m1 ! new_topic)[w := m1 ! new_topic ! w + fr w]]"
    and r: "move_words m2 old_topic new_topic fr ws = Inr m'"
    by auto
  have "shape m2 r c" unfolding m2 m1 by (intro shape_update Cons.prems(2))
  then show ?case by (rule Cons.IH [OF r])
qed

lemma reassign_table_InrD:
  assumes "reassign_table s d t n ws old_topic new_topic = Inr s'"
  shows "\<exists>sa sb m' kd' nkd' nkv'. sa = s\<lparr>k_dt := kd'\<rparr> \<and> (sb = sa \<or> grow_topics sa = Inr sb) \<and>
           move_words (n_kv sb) old_topic new_topic (freq_dist ws) (remdups ws) = Inr nkv' \<and>
           s' = sb\<lparr>m_k := m', n_kd := nkd', n_kv := nkv'\<rparr>"
proof -
  from assms obtain kd' sb mk2 nkd2 nkv' where
    sb: "(if new_topic = K s then grow_topics (s\<lparr>k_dt := kd'\<rparr>) else Inr (s\<lparr>k_dt := kd'\<rparr>)) = Inr sb"
    and mw: "move_words (n_kv sb) old_topic new_topic (freq_dist ws) (remdups ws) = Inr nkv'"
    and s': "s' = sb\<lparr>m_k := mk2, n_kd := nkd2, n_kv := nkv'\<rparr>"
    unfolding reassign_table_def Let_def by (clarsimp split: if_splits)
  from sb have "sb = s\<lparr>k_dt := kd'\<rparr> \<or> grow_topics (s\<lparr>k_dt := kd'\<rparr>) = Inr sb"
    by (simp split: if_splits)
  with mw s' show ?thesis by blast
qed

lemma reassign_table_shape:
  assumes "reassign_table s d t n ws old_topic new_topic = Inr s'"
    and "shape (n_kv s) (K s) (V s)"
  shows "shape (n_kv s') (K s') (V s')"
proof -
  from reassign_table_InrD [OF assms(1)] obtain sa sb m' kd' nkd' nkv' where
    sa: "sa = s\<lparr>k_dt := kd'\<rparr>" and sb: "sb = sa \<or> grow_topics sa = Inr sb"
    and mw: "move_words (n_kv sb) old_topic new_topic (freq_dist ws) (remdups ws) = Inr nkv'"
    and s': "s' = sb\<lparr>m_k := m', n_kd := nkd', n_kv := nkv'\<rparr>"
    by blast
  have "shape (n_kv sb) (K sb) (V sb)"
    using sb sa assms(2) by (auto dest: grow_topics_shape)
  from move_words_shape [OF mw this] show ?thesis by (simp add: s')
qed

lemma table_step_frame:
  assumes "table_step gl s d t u = Inr s'"
  shows "n_dt s' = n_dt s" "t_dv s' = t_dv s" "corpus s' = corpus s" "V s' = V s" "D s' = D s"
    "shape (n_kv s) (K s) (V s) \<Longrightarrow> shape (n_kv s') (K s') (V s')"
proof -
  from assms have "s' = s \<or> (\<exists>n ws old_topic new_topic.
      reassign_table s d t n ws old_topic new_topic = Inr s')"
    unfolding table_step_def Let_def by (auto split: if_splits)
  then show "n_dt s' = n_dt s" "t_dv s' = t_dv s" "corpus s' = corpus s" "V s' = V s" "D s' = D s"
    "shape (n_kv s) (K s) (V s) \<Longrightarrow> shape (n_kv s') (K s') (V s')"
    by (auto dest: reassign_table_frame reassign_table_shape)
qed

subsection \<open>\<^verbatim>\<open>compact_params\<close>, document by document\<close>

lemma np_delete_unused: "np_delete xs (unused xs) = map (\<lambda>i. xs ! i) (used xs)"
proof -
  have "filter (\<lambda>i. i \<notin> set (unused xs)) [0..<length xs] = used xs"
    unfolding unused_def used_def by (rule filter_cong) auto
  then show ?thesis by (simp add: np_delete_def)
qed

lemma map_nth_used: "map (\<lambda>i. xs ! i) (used xs) = filter (\<lambda>x. x \<noteq> 0) xs"
proof -
  have "filter (\<lambda>x. x \<noteq> 0) xs = filter (\<lambda>x. x \<noteq> 0) (map (\<lambda>i. xs ! i) [0..<length xs])"
    by (simp add: map_nth)
  also have "\<dots> = map (\<lambda>i. xs ! i) (used xs)"
    by (simp add: filter_map used_def comp_def)
  finally show ?thesis by simp
qed

lemma sum_list_nonzero: "sum_list (filter (\<lambda>x. x \<noteq> 0) xs) = sum_list (xs :: int list)"
  by (induction xs) auto

lemma compact_doc_InrD:
  assumes "compact_doc us s d = Inr s'"
  shows "d < length (n_dt s) \<and> d < length (k_dt s) \<and> d < length (t_dv s) \<and>
     s' = s\<lparr>n_dt := (n_dt s)[d := np_delete (n_dt s ! d) (unused (n_dt s ! d))],
            k_dt := (k_dt s)[d := relabel us (K s) (np_delete (k_dt s ! d) (unused (n_dt s ! d)))],
            t_dv := (t_dv s)[d := relabel (used (n_dt s ! d))
                       (length (np_delete (n_dt s ! d) (unused (n_dt s ! d)))) (t_dv s ! d)]\<rparr>"
  using assms unfolding compact_doc_def Let_def by auto

lemma compact_docs_InrD:
  assumes "compact_docs us s ds = Inr s'" and "distinct ds"
  shows "K s' = K s \<and> V s' = V s \<and> D s' = D s \<and> corpus s' = corpus s \<and>
     n_kv s' = n_kv s \<and> n_kd s' = n_kd s \<and> m_k s' = m_k s \<and>
     length (n_dt s') = length (n_dt s) \<and> length (k_dt s') = length (k_dt s) \<and>
     length (t_dv s') = length (t_dv s) \<and>
     (\<forall>d. n_dt s' ! d = (if d \<in> set ds then np_delete (n_dt s ! d) (unused (n_dt s ! d))
                          else n_dt s ! d)) \<and>
     (\<forall>d. k_dt s' ! d = (if d \<in> set ds
                          then relabel us (K s) (np_delete (k_dt s ! d) (unused (n_dt s ! d)))
                          else k_dt s ! d)) \<and>
     (\<forall>d. t_dv s' ! d = (if d \<in> set ds
                          then relabel (used (n_dt s ! d))
                                 (length (np_delete (n_dt s ! d) (unused (n_dt s ! d)))) (t_dv s ! d)
                          else t_dv s ! d)) \<and>
     (\<forall>d\<in>set ds. d < length (n_dt s) \<and> d < length (k_dt s) \<and> d < length (t_dv s))"
  using assms
proof (induction ds arbitrary: s)
  case Nil then show ?case by simp
next
  case (Cons d ds)
  from Cons.prems(1) obtain s1 where s1: "compact_doc us s d = Inr s1"
    and r: "compact_docs us s1 ds = Inr s'" by auto
  from Cons.prems(2) have dd: "d \<notin> set ds" "distinct ds" by auto
  note a = compact_doc_InrD [OF s1] and ih = Cons.IH [OF r dd(2)]
  from a have s1e: "s1 = s\<lparr>n_dt := (n_dt s)[d := np_delete (n_dt s ! d) (unused (n_dt s ! d))],
            k_dt := (k_dt s)[d := relabel us (K s) (np_delete (k_dt s ! d) (unused (n_dt s ! d)))],
            t_dv := (t_dv s)[d := relabel (used (n_dt s ! d))
                       (length (np_delete (n_dt s ! d) (unused (n_dt s ! d)))) (t_dv s ! d)]\<rparr>"
    and l: "d < length (n_dt s)" "d < length (k_dt s)" "d < length (t_dv s)" by blast+
  have n1: "n_dt s1 ! d' = (if d' = d then np_delete (n_dt s ! d) (unused (n_dt s ! d)) else n_dt s ! d')"
    for d' using l by (simp add: s1e nth_list_update)
  have k1: "k_dt s1 ! d' = (if d' = d then relabel us (K s) (np_delete (k_dt s ! d) (unused (n_dt s ! d)))
       else k_dt s ! d')"
    for d' using l by (simp add: s1e nth_list_update)
  have t1: "t_dv s1 ! d' = (if d' = d then relabel (used (n_dt s ! d))
                       (length (np_delete (n_dt s ! d) (unused (n_dt s ! d)))) (t_dv s ! d)
       else t_dv s ! d')"
    for d' using l by (simp add: s1e nth_list_update)
  have fr: "K s1 = K s" "V s1 = V s" "D s1 = D s" "corpus s1 = corpus s" "n_kv s1 = n_kv s"
    "n_kd s1 = n_kd s" "m_k s1 = m_k s" "length (n_dt s1) = length (n_dt s)"
    "length (k_dt s1) = length (k_dt s)" "length (t_dv s1) = length (t_dv s)"
    by (simp_all add: s1e)
  show ?case
    using ih dd(1) l unfolding fr n1 k1 t1 by auto
qed

lemma compact_params_InrD:
  assumes "compact_params s = Inr s'"
  shows "K s' = length (used (m_k s))" "1 \<le> K s'" "V s' = V s" "D s' = D s" "corpus s' = corpus s"
    "n_kv s' = np_delete (n_kv s) (unused (m_k s))"
    "n_kd s' = np_delete (n_kd s) (unused (m_k s))"
    "m_k s' = np_delete (m_k s) (unused (m_k s))"
    "shape (n_kv s') (K s') (V s')" "shape (n_kd s') (K s') (D s')" "length (m_k s') = K s'"
    "length (n_dt s') = length (n_dt s)" "length (k_dt s') = length (k_dt s)"
    "length (t_dv s') = length (t_dv s)"
    "d < D s \<Longrightarrow> d < length (n_dt s) \<and> d < length (k_dt s) \<and> d < length (t_dv s) \<and>
       n_dt s' ! d = np_delete (n_dt s ! d) (unused (n_dt s ! d)) \<and>
       k_dt s' ! d = relabel (used (m_k s)) (K s') (np_delete (k_dt s ! d) (unused (n_dt s ! d))) \<and>
       t_dv s' ! d = relabel (used (n_dt s ! d))
                       (length (np_delete (n_dt s ! d) (unused (n_dt s ! d)))) (t_dv s ! d)"
    "\<not> d < D s \<Longrightarrow> n_dt s' ! d = n_dt s ! d \<and> k_dt s' ! d = k_dt s ! d \<and> t_dv s' ! d = t_dv s ! d"
proof -
  let ?K = "nat (int (K s) - int (length (unused (m_k s))))"
  let ?s1 = "s\<lparr>K := ?K, n_kd := np_delete (n_kd s) (unused (m_k s)),
                 n_kv := np_delete (n_kv s) (unused (m_k s)),
                 m_k := np_delete (m_k s) (unused (m_k s))\<rparr>"
  from assms have A: "(1 \<le> int (K s) - int (length (unused (m_k s))) \<and>
      int (K s) - int (length (unused (m_k s))) = int (length (used (m_k s)))) \<and>
      shape (np_delete (n_kd s) (unused (m_k s))) ?K (D s) \<and>
      shape (np_delete (n_kv s) (unused (m_k s))) ?K (V s) \<and>
      length (np_delete (m_k s) (unused (m_k s))) = ?K \<and>
      compact_docs (used (m_k s)) ?s1 [0..<D s] = Inr s'"
    unfolding compact_params_def Let_def assert_e_Inr .
  then have a: "1 \<le> int (K s) - int (length (unused (m_k s)))"
      "int (K s) - int (length (unused (m_k s))) = int (length (used (m_k s)))"
      "shape (np_delete (n_kd s) (unused (m_k s))) ?K (D s)"
      "shape (np_delete (n_kv s) (unused (m_k s))) ?K (V s)"
      "length (np_delete (m_k s) (unused (m_k s))) = ?K"
    and run: "compact_docs (used (m_k s)) ?s1 [0..<D s] = Inr s'"
    by blast+
  have k: "?K = length (used (m_k s))" using a(2) by simp
  note r = compact_docs_InrD [OF run distinct_upt]
  show "K s' = length (used (m_k s))" using r k by simp
  then show "1 \<le> K s'" using a(1,2) by simp
  show "V s' = V s" "D s' = D s" "corpus s' = corpus s"
    "n_kv s' = np_delete (n_kv s) (unused (m_k s))"
    "n_kd s' = np_delete (n_kd s) (unused (m_k s))"
    "m_k s' = np_delete (m_k s) (unused (m_k s))"
    "length (n_dt s') = length (n_dt s)" "length (k_dt s') = length (k_dt s)"
    "length (t_dv s') = length (t_dv s)"
    using r by simp_all
  show "shape (n_kv s') (K s') (V s')" "shape (n_kd s') (K s') (D s')" "length (m_k s') = K s'"
    using r a(3-5) by simp_all
  show "d < length (n_dt s) \<and> d < length (k_dt s) \<and> d < length (t_dv s) \<and>
       n_dt s' ! d = np_delete (n_dt s ! d) (unused (n_dt s ! d)) \<and>
       k_dt s' ! d = relabel (used (m_k s)) (K s') (np_delete (k_dt s ! d) (unused (n_dt s ! d))) \<and>
       t_dv s' ! d = relabel (used (n_dt s ! d))
                       (length (np_delete (n_dt s ! d) (unused (n_dt s ! d)))) (t_dv s ! d)"
    if "d < D s"
    using r that by simp
  show "n_dt s' ! d = n_dt s ! d \<and> k_dt s' ! d = k_dt s ! d \<and> t_dv s' ! d = t_dv s ! d"
    if "\<not> d < D s"
    using r that by simp
qed

lemma doc_of_cong: "corpus s' = corpus s \<Longrightarrow> doc_of s' = doc_of s"
  by (simp add: doc_of_def fun_eq_iff)

lemma conserved_iff:
  "conserved s = (\<forall>d<D s. d < length (n_dt s) \<and> sum_list (n_dt s ! d) = int (length (doc_of s d)))"
  by (simp add: conserved_def list_all_upt)

lemma conserved_initialize:
  assumes "initialize data K0 a g e = Inr s"
  shows "conserved s"
  unfolding conserved_iff using initialize_InrD(10) [OF assms] by simp

lemma conserved_run_step:
  assumes "conserved s" and "run_step gl s x = Inr s'"
  shows "conserved s'"
proof (cases x)
  case (Word_step d i u1 u2)
  then have w: "word_step s d i u1 u2 = Inr s'" using assms(2) by simp
  note f = word_step_frame [OF w]
  show ?thesis unfolding conserved_iff
  proof (intro allI impI)
    fix d' assume "d' < D s'"
    then have "d' < length (n_dt s) \<and> sum_list (n_dt s ! d') = int (length (doc_of s d'))"
      using assms(1) f(3) by (simp add: conserved_iff)
    then show "d' < length (n_dt s') \<and> sum_list (n_dt s' ! d') = int (length (doc_of s' d'))"
      using f(4) f(6) f(7) [of d'] doc_of_cong [OF f(1)] by (cases "d' = d") simp_all
  qed
next
  case (Table_step d t u)
  then have w: "table_step gl s d t u = Inr s'" using assms(2) by simp
  note f = table_step_frame [OF w]
  show ?thesis using assms(1) f(1,5) doc_of_cong [OF f(3)] by (simp add: conserved_iff)
next
  case Compact
  then have w: "compact_params s = Inr s'" using assms(2) by simp
  note f = compact_params_InrD [OF w]
  show ?thesis unfolding conserved_iff
  proof (intro allI impI)
    fix d assume "d < D s'"
    then have d: "d < D s" using f(4) by simp
    then have "d < length (n_dt s) \<and> sum_list (n_dt s ! d) = int (length (doc_of s d))"
      using assms(1) by (simp add: conserved_iff)
    then show "d < length (n_dt s') \<and> sum_list (n_dt s' ! d) = int (length (doc_of s' d))"
      using f(12) f(15) [OF d] doc_of_cong [OF f(5)]
      by (simp add: np_delete_unused map_nth_used sum_list_nonzero)
  qed
qed

lemma conserved_run_steps:
  "conserved s \<Longrightarrow> run_steps gl s xs = Inr s' \<Longrightarrow> conserved s'"
proof (induction xs arbitrary: s)
  case Nil then show ?case by simp
next
  case (Cons x xs)
  from Cons.prems(2) obtain s1 where "run_step gl s x = Inr s1" "run_steps gl s1 xs = Inr s'"
    by auto
  then show ?case using Cons.IH conserved_run_step [OF Cons.prems(1)] by blast
qed

subsection \<open>Conservation\<close>

lemma run_steps_scenario:
  "run_steps (\<lambda>x. 0) scenario [Table_step 0 0 (1/2)] = Inr scenario_moved"
  by (simp add: table_step_scenario)

text \<open>
  Between the retraction of a token and its re-seating the count of the token is
  missing: after \<^verbatim>\<open>update_params(0, 0, -1)\<close> on the scenario \<^verbatim>\<open>sum(n_dt[0])\<close> is 4, and the
  document has 5 tokens.
\<close>

theorem conservation_fails_after_retraction:
  "initialize [(0, [0, 0, 0, 1, 1])] 1 1 1 1 = Inr scenario \<and>
   update_params scenario 0 0 (-1) = Inr scenario_retracted \<and>
   sum_list (n_dt scenario_retracted ! 0) = 4 \<and>
   int (length (doc_of scenario_retracted 0)) = 5"
  using initialize_scenario
  by (simp add: update_params_def scenario_def scenario_retracted_def doc_of_def doc_e_def
      add_at2_def add_at_def assert_e_def key_e_def nth_e_def all_nonneg_def all_nonneg2_def)

text \<open>
  Claim C5 (amended).  After \<^verbatim>\<open>_initialize\<close> and after every complete step of sampling
  (the word-to-table step of a token, the table-to-topic step of a table,
  \<^verbatim>\<open>compact_params\<close>), \<^verbatim>\<open>sum(n_dt[d]) == len(corpus[d])\<close> for every document \<open>d\<close>.  Inside
  the word-to-table step, immediately after the retraction of a token of document
  \<open>d\<close>, the sum is one less than the length of the document.
\<close>

theorem conservation_between_steps:
  assumes "initialize data K0 a g e = Inr s0" and "run_steps gl s0 steps = Inr s"
  shows "conserved s \<and>
     (\<forall>d i s1. d < D s \<and> update_params s d i (-1) = Inr s1 \<longrightarrow>
        sum_list (n_dt s1 ! d) = int (length (doc_of s d)) - 1)"
proof -
  have c: "conserved s"
    using conserved_run_steps [OF conserved_initialize [OF assms(1)] assms(2)] .
  have "sum_list (n_dt s1 ! d) = int (length (doc_of s d)) - 1"
    if "d < D s" "update_params s d i (-1) = Inr s1" for d i s1
    using c that(1) update_params_frame(9) [OF that(2)] by (simp add: conserved_iff)
  with c show ?thesis by blast
qed

theorem conservation_between_steps_witness:
  "conserved scenario_moved \<and>
   (\<exists>s1. update_params scenario_moved 0 0 (-1) = Inr s1 \<and> sum_list (n_dt s1 ! 0) = 4)"
proof -
  note t = conservation_between_steps [OF initialize_scenario run_steps_scenario]
  have r: "update_params scenario_moved 0 0 (-1) =
      Inr (scenario_moved\<lparr>n_dt := [[4]], n_kv := [[0, 0], [2, 2]], n_kd := [[0], [4]]\<rparr>)"
    by (simp add: update_params_def scenario_moved_def doc_e_def
      add_at2_def add_at_def assert_e_def key_e_def nth_e_def all_nonneg_def all_nonneg2_def)
  have "0 < D scenario_moved" "int (length (doc_of scenario_moved 0)) = 5"
    by (simp_all add: scenario_moved_def doc_of_def)
  with t r have "sum_list (n_dt (scenario_moved\<lparr>n_dt := [[4]], n_kv := [[0, 0], [2, 2]],
      n_kd := [[0], [4]]\<rparr>) ! 0) = 4"
    by fastforce
  with t r show ?thesis by blast
qed

subsection \<open>Word ids and the vocabulary\<close>







subsection \<open>The weights of the word-to-table step\<close>





lemma map_e_length: "map_e g xs = Inr ys \<Longrightarrow> length ys = length xs"
  by (induction xs arbitrary: ys) auto









end
